theory Spec2Isabelle
  imports Complex_Main
begin

section \<open>Strings, runtime values, diagnostics\<close>

text \<open>
  The resolver of \<^verbatim>\<open>fluent/runtime/resolver.py\<close> works on Python text strings, whose
  length counts code points. A string is therefore a list of code points; the two bidi
  isolation characters are one code point each.
\<close>

type_synonym ustring = "nat list"

definition ustr :: "string \<Rightarrow> ustring" where
  "ustr s = map of_char s"

definition MAX_PART_LENGTH :: nat where
  "MAX_PART_LENGTH = 2500"

definition MAX_PARTS :: int where
  "MAX_PARTS = 1000"

definition FSI :: ustring where
  "FSI = [0x2068]"

definition PDI :: ustring where
  "PDI = [0x2069]"

text \<open>
  A Python float or Decimal is a finite rational, an infinity or a NaN; this is all that
  the equality test of \<^verbatim>\<open>match\<close> looks at.
\<close>

datatype pyfloat = Finite rat | PosInf | NegInf | NaN

text \<open>
  The runtime values that reach the resolver: externally supplied arguments, results of
  registered functions, and the values the handlers pass to each other. \<open>FluentNone\<close>
  is the placeholder of \<^verbatim>\<open>types.py\<close>, carrying the name that failed (or nothing).
  Instances of the number and date wrappers of \<^verbatim>\<open>types.py\<close> are instances of the
  native classes and are represented by the constructor of their native class. Any other
  object is a \<open>PyObject\<close>, compared by identity.
\<close>

datatype pyval =
    PyNone
  | PyStr ustring
  | PyInt int
  | PyFloat pyfloat
  | PyDecimal pyfloat
  | PyDate nat
  | PyDatetime nat
  | FluentNone "ustring option"
  | PyObject nat

text \<open>The exceptions that leave the resolver.\<close>

datatype exn =
    LookupError
  | TypeError
  | AssertionError
  | AttributeError
  | UnboundLocalError
  | FunctionRaised nat

text \<open>The error objects appended to \<^verbatim>\<open>env.errors\<close>, one constructor per call site.\<close>

datatype diagnostic =
    CyclicReference
  | TooManyParts
  | PartTooLong nat
  | UnknownReference ustring
  | UnknownExternal ustring
  | UnsupportedExternalType ustring
  | UnknownVariant pyval
  | IgnoredPositionalArguments ustring
  | UnknownFunction ustring
  | FunctionArgumentError nat

section \<open>Syntax tree\<close>

text \<open>
  The nodes of \<^verbatim>\<open>fluent.syntax.ast\<close> that \<^verbatim>\<open>handle\<close> has a handler for. A
  \<open>Pattern\<close> carries its object identity, which is what the set \<^verbatim>\<open>env.dirty\<close>
  holds (the node classes define no equality of their own). A \<open>NumberLiteral\<close>
  carries the native number that \<^verbatim>\<open>numeric_to_native\<close> (of \<^verbatim>\<open>utils.py\<close>, not
  among the sources) makes of its text. The \<^verbatim>\<open>value\<close> of a message or term may be
  \<^verbatim>\<open>None\<close>.
\<close>

datatype reference =
    MessageReference ustring
  | TermReference ustring
  | AttributeExpression reference ustring

datatype callee =
    FunctionReference ustring
  | CalleeReference reference

datatype node =
    Message "node option"
  | Term "node option"
  | Attribute node
  | Pattern nat "node list"
  | TextElement ustring
  | Placeable node
  | StringLiteral ustring
  | NumberLiteral pyval
  | Identifier ustring
  | VariableReference ustring
  | Ref reference
  | VariantList "variant list"
  | SelectExpression node "variant list"
  | VariantExpression reference node
  | CallExpression callee "node list" "(ustring \<times> node) list"
and variant =
    Variant (variant_key: node) (variant_value: node) (variant_default: bool)

text \<open>What \<^verbatim>\<open>lookup_reference\<close> returns: a node of the registry or a placeholder.\<close>

datatype obj = Node node | Val pyval

section \<open>Bundle and resolution environment\<close>

text \<open>
  A registered function, as the resolver uses it: the argument errors that
  \<^verbatim>\<open>inspect_function_args\<close> appends for it, the verdict of \<^verbatim>\<open>args_match\<close> on a
  list of positional and a dictionary of named arguments with the argument errors it
  reports (both of \<^verbatim>\<open>utils.py\<close>, not among the sources; an argument error is an
  opaque number here), and the call itself, which returns a value or raises.
\<close>

record fluent_function =
  inspect_errors :: "nat list"
  args_match :: "pyval list \<Rightarrow> (ustring \<rightharpoonup> pyval)
                   \<Rightarrow> bool \<times> pyval list \<times> (ustring \<rightharpoonup> pyval) \<times> nat list"
  call :: "pyval list \<Rightarrow> (ustring \<rightharpoonup> pyval) \<Rightarrow> exn + pyval"

text \<open>
  The bundle (\<^verbatim>\<open>env.context\<close>). \<open>babel_locale\<close> stands for
  \<^verbatim>\<open>x.format(env.context._babel_locale)\<close>: the text a value formats to under the
  active locale.
\<close>

record fluent_bundle =
  messages_and_terms :: "ustring \<rightharpoonup> node"
  bundle_functions :: "ustring \<rightharpoonup> fluent_function"
  use_isolating :: bool
  plural_form :: "pyval \<Rightarrow> ustring"
  babel_locale :: "pyval \<Rightarrow> ustring"

record current_environment =
  args :: "ustring \<rightharpoonup> pyval"
  error_for_missing_arg :: bool

record resolver_environment =
  env_context :: fluent_bundle
  errors :: "diagnostic list"
  dirty :: "nat set"
  part_count :: int
  current :: current_environment

text \<open>
  A computation on the environment returns a value or raises, and leaves an environment
  behind in both cases; \<open>None\<close> means that the recursion bound of the model was
  reached before the computation ended.
\<close>

type_synonym 'a comp = "resolver_environment \<Rightarrow> ((exn + 'a) \<times> resolver_environment) option"

definition ret :: "'a \<Rightarrow> 'a comp" where
  "ret v env = Some (Inr v, env)"

definition raise :: "exn \<Rightarrow> 'a comp" where
  "raise e env = Some (Inl e, env)"

definition bind :: "'a comp \<Rightarrow> ('a \<Rightarrow> 'b comp) \<Rightarrow> 'b comp" where
  "bind m f env =
     (case m env of
        None \<Rightarrow> None
      | Some (Inl e, env') \<Rightarrow> Some (Inl e, env')
      | Some (Inr v, env') \<Rightarrow> f v env')"

definition append_error :: "diagnostic \<Rightarrow> resolver_environment \<Rightarrow> resolver_environment" where
  "append_error d env = env\<lparr>errors := errors env @ [d]\<rparr>"

section \<open>Selector matching\<close>

definition is_number :: "pyval \<Rightarrow> bool" where
  "is_number val = (case val of PyInt _ \<Rightarrow> True | PyFloat _ \<Rightarrow> True | _ \<Rightarrow> False)"

definition is_FluentNone :: "pyval \<Rightarrow> bool" where
  "is_FluentNone val = (case val of FluentNone _ \<Rightarrow> True | _ \<Rightarrow> False)"

text \<open>
  Python's \<^verbatim>\<open>==\<close> on the values above: numbers of different classes are compared by
  value and a NaN equals nothing; everything else is equal only to a value of its own
  class with the same content.
\<close>

definition numeric :: "pyval \<Rightarrow> pyfloat option" where
  "numeric val =
     (case val of
        PyInt i \<Rightarrow> Some (Finite (of_int i))
      | PyFloat f \<Rightarrow> Some f
      | PyDecimal d \<Rightarrow> Some d
      | _ \<Rightarrow> None)"

definition py_eq :: "pyval \<Rightarrow> pyval \<Rightarrow> bool" where
  "py_eq val1 val2 =
     (case (numeric val1, numeric val2) of
        (Some x, Some y) \<Rightarrow> x \<noteq> NaN \<and> x = y
      | (None, None) \<Rightarrow> val1 = val2
      | _ \<Rightarrow> False)"

function match :: "pyval \<Rightarrow> pyval \<Rightarrow> resolver_environment \<Rightarrow> bool" where
  "match val1 val2 env =
     (if val1 = PyNone \<or> is_FluentNone val1 then False
      else if val2 = PyNone \<or> is_FluentNone val2 then False
      else if is_number val1 then
        (if \<not> is_number val2
         then py_eq (PyStr (plural_form (env_context env) val1)) val2
         else py_eq val1 val2)
      else if is_number val2 then match val2 val1 env
      else py_eq val1 val2)"
  by pat_completeness auto
termination
  by (relation "measure (\<lambda>(val1, val2, env). if is_number val1 then 0 else 1)") auto

declare match.simps [simp del]

text \<open>Neither \<^verbatim>\<open>None\<close> nor a placeholder.\<close>

definition usable :: "pyval \<Rightarrow> bool" where
  "usable val = (val \<noteq> PyNone \<and> \<not> is_FluentNone val)"

section \<open>Handlers of runtime values\<close>

text \<open>
  \<^verbatim>\<open>handle\<close> on a runtime value: a placeholder, a number or a date formats to text
  under the locale, \<^verbatim>\<open>None\<close> raises \<^verbatim>\<open>LookupError\<close>, and a value without a
  registered handler (a string included) raises \<^verbatim>\<open>TypeError\<close>.
\<close>

definition handle_none :: "'a comp" where
  "handle_none = raise LookupError"

definition handle_value :: "pyval \<Rightarrow> ustring comp" where
  "handle_value val env =
     (case val of
        FluentNone name \<Rightarrow> ret (babel_locale (env_context env) val) env
      | PyNone \<Rightarrow> handle_none env
      | PyInt i \<Rightarrow> ret (babel_locale (env_context env) val) env
      | PyFloat f \<Rightarrow> ret (babel_locale (env_context env) val) env
      | PyDecimal d \<Rightarrow> ret (babel_locale (env_context env) val) env
      | PyDate d \<Rightarrow> ret (babel_locale (env_context env) val) env
      | PyDatetime d \<Rightarrow> ret (babel_locale (env_context env) val) env
      | PyStr s \<Rightarrow> raise TypeError env
      | PyObject p \<Rightarrow> raise TypeError env)"

text \<open>
  \<^verbatim>\<open>fully_resolve\<close> on a value that \<^verbatim>\<open>handle\<close> returned: a string is the result;
  anything else is handled once more, and what the value handlers return is a string.
\<close>

definition fully_resolve_value :: "pyval \<Rightarrow> ustring comp" where
  "fully_resolve_value retval =
     (case retval of PyStr s \<Rightarrow> ret s | _ \<Rightarrow> handle_value retval)"

definition fully_resolve :: "(node \<Rightarrow> pyval comp) \<Rightarrow> node \<Rightarrow> ustring comp" where
  "fully_resolve h expr = bind (h expr) fully_resolve_value"

section \<open>Scoped bindings\<close>

text \<open>
  \<^verbatim>\<open>ResolverEnvironment.modified\<close> is a generator-based context manager without a
  \<^verbatim>\<open>try\<close>: the statement after \<^verbatim>\<open>yield\<close> runs when the body returns, and does
  not run when the body raises.
\<close>

definition modified ::
  "(current_environment \<Rightarrow> current_environment) \<Rightarrow> 'a comp \<Rightarrow> 'a comp" where
  "modified replacements body env =
     (let old_current = current env in
      case body (env\<lparr>current := replacements old_current\<rparr>) of
        None \<Rightarrow> None
      | Some (Inl e, env') \<Rightarrow> Some (Inl e, env')
      | Some (Inr v, env') \<Rightarrow> Some (Inr v, env'\<lparr>current := old_current\<rparr>))"

definition modified_for_term_reference ::
  "(ustring \<rightharpoonup> pyval) option \<Rightarrow> 'a comp \<Rightarrow> 'a comp" where
  "modified_for_term_reference new_args body =
     modified (\<lambda>c. c\<lparr>args := (case new_args of None \<Rightarrow> Map.empty | Some a \<Rightarrow> a),
                      error_for_missing_arg := False\<rparr>) body"

section \<open>References\<close>

text \<open>
  Modelled from the spec: \<^verbatim>\<open>reference_to_id\<close> is defined in \<^verbatim>\<open>utils.py\<close>, which is
  not among the sources. The identifier of an attribute reference joins the identifier of
  its base and the attribute name with a fixed separator (\<^verbatim>\<open>base.attribute\<close>); a message
  or term reference carries the identifier under which the registry knows its target.
\<close>

definition ATTRIBUTE_SEPARATOR :: ustring where
  "ATTRIBUTE_SEPARATOR = ustr ''.''"

fun reference_to_id :: "reference \<Rightarrow> ustring" where
  "reference_to_id (MessageReference name) = name"
| "reference_to_id (TermReference name) = name"
| "reference_to_id (AttributeExpression ref name) =
     reference_to_id ref @ ATTRIBUTE_SEPARATOR @ name"

definition lookup_reference :: "reference \<Rightarrow> obj comp" where
  "lookup_reference ref env =
     (let ref_id = reference_to_id ref in
      case messages_and_terms (env_context env) ref_id of
        Some nd \<Rightarrow> ret (Node nd) env
      | None \<Rightarrow>
          (let env1 = append_error (UnknownReference ref_id) env in
           case ref of
             AttributeExpression parent name \<Rightarrow>
               (case messages_and_terms (env_context env1) (reference_to_id parent) of
                  Some nd \<Rightarrow> ret (Node nd) env1
                | None \<Rightarrow> ret (Val (FluentNone (Some ref_id))) env1)
           | _ \<Rightarrow> ret (Val (FluentNone (Some ref_id))) env1))"

text \<open>\<^verbatim>\<open>handle\<close> applied to what \<^verbatim>\<open>lookup_reference\<close> returned.\<close>

definition handle_obj :: "(node \<Rightarrow> pyval comp) \<Rightarrow> obj \<Rightarrow> pyval comp" where
  "handle_obj h x =
     (case x of Node nd \<Rightarrow> h nd | Val v \<Rightarrow> bind (handle_value v) (\<lambda>s. ret (PyStr s)))"

text \<open>\<^verbatim>\<open>handle\<close> applied to a field that holds a node or \<^verbatim>\<open>None\<close>.\<close>

definition handle_opt :: "(node \<Rightarrow> pyval comp) \<Rightarrow> node option \<Rightarrow> pyval comp" where
  "handle_opt h x = (case x of None \<Rightarrow> handle_none | Some nd \<Rightarrow> h nd)"

definition handle_message_reference :: "(node \<Rightarrow> pyval comp) \<Rightarrow> reference \<Rightarrow> pyval comp" where
  "handle_message_reference h message_reference =
     bind (lookup_reference message_reference) (handle_obj h)"

definition handle_term_reference :: "(node \<Rightarrow> pyval comp) \<Rightarrow> reference \<Rightarrow> pyval comp" where
  "handle_term_reference h term_reference =
     modified_for_term_reference None
       (bind (lookup_reference term_reference) (handle_obj h))"

definition handle_attribute_expression :: "(node \<Rightarrow> pyval comp) \<Rightarrow> reference \<Rightarrow> pyval comp" where
  "handle_attribute_expression h attribute_ref =
     bind (lookup_reference attribute_ref) (handle_obj h)"

definition supported_external :: "pyval \<Rightarrow> bool" where
  "supported_external arg_val =
     (case arg_val of
        PyInt _ \<Rightarrow> True | PyFloat _ \<Rightarrow> True | PyDecimal _ \<Rightarrow> True
      | PyDate _ \<Rightarrow> True | PyDatetime _ \<Rightarrow> True | PyStr _ \<Rightarrow> True
      | _ \<Rightarrow> False)"

definition handle_variable_reference :: "ustring \<Rightarrow> pyval comp" where
  "handle_variable_reference name env =
     (case args (current env) name of
        None \<Rightarrow>
          (if error_for_missing_arg (current env)
           then ret (FluentNone (Some name)) (append_error (UnknownExternal name) env)
           else ret (FluentNone (Some name)) env)
      | Some arg_val \<Rightarrow>
          (if supported_external arg_val then ret arg_val env
           else ret (FluentNone (Some name))
                  (append_error (UnsupportedExternalType name) env)))"

section \<open>Patterns\<close>

definition text_element_value :: "node \<Rightarrow> ustring option" where
  "text_element_value element =
     (case element of TextElement v \<Rightarrow> Some v | _ \<Rightarrow> None)"

text \<open>
  The \<^verbatim>\<open>for\<close> loop of \<^verbatim>\<open>handle_pattern\<close>; \<open>parts\<close> is the list it appends to. The
  two \<^verbatim>\<open>break\<close>s return the parts collected so far.
\<close>

fun handle_pattern_elements ::
  "(node \<Rightarrow> pyval comp) \<Rightarrow> bool \<Rightarrow> node list \<Rightarrow> ustring list \<Rightarrow> ustring list comp" where
  "handle_pattern_elements h use_iso [] parts env = ret parts env"
| "handle_pattern_elements h use_iso (element # rest) parts env =
     (let env1 = env\<lparr>part_count := part_count env + 1\<rparr> in
      if part_count env1 > MAX_PARTS then
        (if part_count env1 = MAX_PARTS + 1
         then bind (fully_resolve_value (FluentNone None)) (\<lambda>s. ret (parts @ [s]))
                (append_error TooManyParts env1)
         else ret parts env1)
      else
        (case text_element_value element of
           Some v \<Rightarrow> handle_pattern_elements h use_iso rest (parts @ [v]) env1
         | None \<Rightarrow>
             bind (fully_resolve h element)
               (\<lambda>part env2.
                  let parts1 = (if use_iso then parts @ [FSI] else parts);
                      env3 = (if length part > MAX_PART_LENGTH
                              then append_error (PartTooLong (length part)) env2 else env2);
                      part1 = (if length part > MAX_PART_LENGTH
                               then take MAX_PART_LENGTH part else part);
                      parts2 = parts1 @ [part1];
                      parts3 = (if use_iso then parts2 @ [PDI] else parts2)
                  in handle_pattern_elements h use_iso rest parts3 env3)
               env1))"

definition handle_pattern :: "(node \<Rightarrow> pyval comp) \<Rightarrow> nat \<Rightarrow> node list \<Rightarrow> pyval comp" where
  "handle_pattern h pattern elements env =
     (if pattern \<in> dirty env then ret (FluentNone None) (append_error CyclicReference env)
      else
        (let env1 = env\<lparr>dirty := insert pattern (dirty env)\<rparr>;
             use_iso = (use_isolating (env_context env1) \<and> length elements > 1)
         in bind (handle_pattern_elements h use_iso elements [])
              (\<lambda>parts env2. ret (PyStr (concat parts)) (env2\<lparr>dirty := dirty env2 - {pattern}\<rparr>))
              env1))"

section \<open>Variant selection\<close>

text \<open>
  The loop of \<^verbatim>\<open>select_from_variant_list\<close>. The local \<^verbatim>\<open>default\<close> is not assigned
  before the loop: \<open>None\<close> stands for the unbound local. The loop returns
  \<^verbatim>\<open>found\<close> and \<^verbatim>\<open>default\<close>.
\<close>

fun variant_list_loop ::
  "(node \<Rightarrow> pyval comp) \<Rightarrow> variant list \<Rightarrow> pyval \<Rightarrow> variant option
     \<Rightarrow> (variant option \<times> variant option) comp" where
  "variant_list_loop h [] key dflt = ret (None, dflt)"
| "variant_list_loop h (variant # rest) key dflt =
     (let dflt1 = (if variant_default variant then Some variant else dflt) in
      if variant_default variant \<and> key = PyNone then ret (None, dflt1)
      else bind (h (variant_key variant))
             (\<lambda>compare_value env.
                if match key compare_value env then ret (Some variant, dflt1) env
                else variant_list_loop h rest key dflt1 env))"

definition select_from_variant_list ::
  "(node \<Rightarrow> pyval comp) \<Rightarrow> variant list \<Rightarrow> pyval \<Rightarrow> pyval comp" where
  "select_from_variant_list h variants key =
     bind (variant_list_loop h variants key None)
       (\<lambda>(found, dflt) env.
          case found of
            Some variant \<Rightarrow> h (variant_value variant) env
          | None \<Rightarrow>
              (let env1 = (if key \<noteq> PyNone \<and> \<not> is_FluentNone key
                           then append_error (UnknownVariant key) env else env)
               in case dflt of
                    None \<Rightarrow> raise UnboundLocalError env1
                  | Some variant \<Rightarrow> h (variant_value variant) env1))"

definition handle_variant_list :: "(node \<Rightarrow> pyval comp) \<Rightarrow> variant list \<Rightarrow> pyval comp" where
  "handle_variant_list h variants = select_from_variant_list h variants PyNone"

text \<open>
  The loop of \<^verbatim>\<open>select_from_select_expression\<close>, where \<^verbatim>\<open>default\<close> starts as
  \<^verbatim>\<open>None\<close>.
\<close>

fun select_expression_loop ::
  "(node \<Rightarrow> pyval comp) \<Rightarrow> variant list \<Rightarrow> pyval \<Rightarrow> variant option
     \<Rightarrow> (variant option \<times> variant option) comp" where
  "select_expression_loop h [] key dflt = ret (None, dflt)"
| "select_expression_loop h (variant # rest) key dflt =
     (let dflt1 = (if variant_default variant then Some variant else dflt) in
      bind (h (variant_key variant))
        (\<lambda>compare_value env.
           if match key compare_value env then ret (Some variant, dflt1) env
           else select_expression_loop h rest key dflt1 env))"

definition select_from_select_expression ::
  "(node \<Rightarrow> pyval comp) \<Rightarrow> variant list \<Rightarrow> pyval \<Rightarrow> pyval comp" where
  "select_from_select_expression h variants key =
     bind (select_expression_loop h variants key None)
       (\<lambda>(found, dflt).
          case (case found of None \<Rightarrow> dflt | Some variant \<Rightarrow> Some variant) of
            None \<Rightarrow> ret (FluentNone None)
          | Some variant \<Rightarrow> h (variant_value variant))"

definition handle_select_expression ::
  "(node \<Rightarrow> pyval comp) \<Rightarrow> node \<Rightarrow> variant list \<Rightarrow> pyval comp" where
  "handle_select_expression h selector variants =
     bind (h selector) (\<lambda>key. select_from_select_expression h variants key)"

text \<open>
  \<^verbatim>\<open>handle_variant_expression\<close>: \<^verbatim>\<open>message.value\<close> exists on a message, a term and
  an attribute; the assertion wants it to be a variant list; \<^verbatim>\<open>expression.key.name\<close>
  exists on an identifier.
\<close>

definition node_value :: "node \<Rightarrow> node option option" where
  "node_value nd =
     (case nd of
        Message value \<Rightarrow> Some value
      | Term value \<Rightarrow> Some value
      | Attribute value \<Rightarrow> Some (Some value)
      | _ \<Rightarrow> None)"

definition handle_variant_expression ::
  "(node \<Rightarrow> pyval comp) \<Rightarrow> reference \<Rightarrow> node \<Rightarrow> pyval comp" where
  "handle_variant_expression h ref key =
     bind (lookup_reference ref)
       (\<lambda>message.
          case message of
            Val v \<Rightarrow> ret v
          | Node nd \<Rightarrow>
              (case node_value nd of
                 None \<Rightarrow> raise AttributeError
               | Some (Some (VariantList variants)) \<Rightarrow>
                   (case key of
                      Identifier variant_name \<Rightarrow>
                        select_from_variant_list h variants (PyStr variant_name)
                    | _ \<Rightarrow> raise AttributeError)
               | Some _ \<Rightarrow> raise AssertionError))"

section \<open>Calls\<close>

fun handle_positional :: "(node \<Rightarrow> pyval comp) \<Rightarrow> node list \<Rightarrow> pyval list comp" where
  "handle_positional h [] = ret []"
| "handle_positional h (arg # rest) =
     bind (h arg) (\<lambda>v. bind (handle_positional h rest) (\<lambda>vs. ret (v # vs)))"

fun handle_named ::
  "(node \<Rightarrow> pyval comp) \<Rightarrow> (ustring \<times> node) list \<Rightarrow> (ustring \<rightharpoonup> pyval)
     \<Rightarrow> (ustring \<rightharpoonup> pyval) comp" where
  "handle_named h [] kwargs = ret kwargs"
| "handle_named h (kwarg # rest) kwargs =
     bind (h (snd kwarg)) (\<lambda>v. handle_named h rest (kwargs(fst kwarg \<mapsto> v)))"

definition call_function ::
  "ustring \<Rightarrow> pyval list \<Rightarrow> (ustring \<rightharpoonup> pyval) \<Rightarrow> pyval comp" where
  "call_function function_name arg_vals kwargs env =
     (case bundle_functions (env_context env) function_name of
        None \<Rightarrow>
          ret (FluentNone (Some (function_name @ ustr ''()'')))
            (append_error (UnknownFunction function_name) env)
      | Some f \<Rightarrow>
          (let env1 = env\<lparr>errors := errors env @ map FunctionArgumentError (inspect_errors f)\<rparr> in
           case args_match f arg_vals kwargs of
             (matched, sanitized_args, sanitized_kwargs, errs) \<Rightarrow>
               (let env2 = env1\<lparr>errors := errors env1 @ map FunctionArgumentError errs\<rparr> in
                if matched then
                  (case call f sanitized_args sanitized_kwargs of
                     Inl e \<Rightarrow> raise e env2
                   | Inr v \<Rightarrow> ret v env2)
                else ret (FluentNone (Some (function_name @ ustr ''()''))) env2)))"

definition call_term ::
  "(node \<Rightarrow> pyval comp) \<Rightarrow> reference \<Rightarrow> pyval list \<Rightarrow> (ustring \<rightharpoonup> pyval) \<Rightarrow> pyval comp" where
  "call_term h callee_ref arg_vals kwargs =
     bind (lookup_reference callee_ref)
       (\<lambda>term env.
          let env1 = (if arg_vals \<noteq> []
                      then append_error (IgnoredPositionalArguments (reference_to_id callee_ref)) env
                      else env)
          in modified_for_term_reference (Some kwargs) (handle_obj h term) env1)"

definition handle_call_expression ::
  "(node \<Rightarrow> pyval comp) \<Rightarrow> callee \<Rightarrow> node list \<Rightarrow> (ustring \<times> node) list \<Rightarrow> pyval comp" where
  "handle_call_expression h callee positional named =
     bind (handle_positional h positional)
       (\<lambda>arg_vals. bind (handle_named h named Map.empty)
          (\<lambda>kwargs.
             case callee of
               CalleeReference (TermReference name) \<Rightarrow>
                 call_term h (TermReference name) arg_vals kwargs
             | CalleeReference (AttributeExpression ref name) \<Rightarrow>
                 call_term h (AttributeExpression ref name) arg_vals kwargs
             | CalleeReference (MessageReference name) \<Rightarrow>
                 call_function name arg_vals kwargs
             | FunctionReference name \<Rightarrow>
                 call_function name arg_vals kwargs))"

section \<open>The dispatcher\<close>

text \<open>
  \<^verbatim>\<open>handle\<close> dispatches on the class of the node; each handler calls back into
  \<^verbatim>\<open>handle\<close>, here the argument \<open>h\<close>. \<open>handle n\<close> is the dispatcher with at most
  \<open>n\<close> nested calls of \<^verbatim>\<open>handle\<close>; the interpreter's own recursion limit is not
  part of the model.
\<close>

fun dispatch :: "(node \<Rightarrow> pyval comp) \<Rightarrow> node \<Rightarrow> pyval comp" where
  "dispatch h (Message value) = handle_opt h value"
| "dispatch h (Term value) = handle_opt h value"
| "dispatch h (Attribute value) = h value"
| "dispatch h (Pattern pattern elements) = handle_pattern h pattern elements"
| "dispatch h (TextElement value) = ret (PyStr value)"
| "dispatch h (Placeable expression) = h expression"
| "dispatch h (StringLiteral value) = ret (PyStr value)"
| "dispatch h (NumberLiteral value) = ret value"
| "dispatch h (Identifier name) = ret (PyStr name)"
| "dispatch h (VariableReference name) = handle_variable_reference name"
| "dispatch h (Ref (MessageReference name)) =
     handle_message_reference h (MessageReference name)"
| "dispatch h (Ref (TermReference name)) = handle_term_reference h (TermReference name)"
| "dispatch h (Ref (AttributeExpression ref name)) =
     handle_attribute_expression h (AttributeExpression ref name)"
| "dispatch h (VariantList variants) = handle_variant_list h variants"
| "dispatch h (SelectExpression selector variants) =
     handle_select_expression h selector variants"
| "dispatch h (VariantExpression ref key) = handle_variant_expression h ref key"
| "dispatch h (CallExpression callee positional named) =
     handle_call_expression h callee positional named"

primrec handle :: "nat \<Rightarrow> node \<Rightarrow> pyval comp" where
  "handle 0 = (\<lambda>expr env. None)"
| "handle (Suc n) = dispatch (handle n)"

text \<open>The environment that \<^verbatim>\<open>resolve\<close> creates.\<close>

definition initial_env :: "fluent_bundle \<Rightarrow> (ustring \<rightharpoonup> pyval) \<Rightarrow> resolver_environment" where
  "initial_env ctx arg_map =
     \<lparr>env_context = ctx, errors = [], dirty = {}, part_count = 0,
      current = \<lparr>args = arg_map, error_for_missing_arg = True\<rparr>\<rparr>"

definition resolve ::
  "nat \<Rightarrow> fluent_bundle \<Rightarrow> node \<Rightarrow> (ustring \<rightharpoonup> pyval)
     \<Rightarrow> (exn + ustring \<times> diagnostic list) option" where
  "resolve n ctx message arg_map =
     (let env = initial_env ctx arg_map
      in case fully_resolve (handle n) message env of
           None \<Rightarrow> None
         | Some (Inl e, env') \<Rightarrow> Some (Inl e)
         | Some (Inr s, env') \<Rightarrow> Some (Inr (s, errors env')))"

section \<open>Example inputs\<close>

text \<open>
  A bundle without functions for the given registry: every number has the plural category
  \<open>other\<close>, a placeholder formats to the name it carries or to \<open>???\<close>, and any
  other value to \<open>#\<close>.
\<close>

fun example_format :: "pyval \<Rightarrow> ustring" where
  "example_format (FluentNone (Some name)) = name"
| "example_format (FluentNone None) = ustr ''???''"
| "example_format v = ustr ''#''"

definition example_plural_form :: "pyval \<Rightarrow> ustring" where
  "example_plural_form v = ustr ''other''"

definition example_bundle :: "(ustring \<rightharpoonup> node) \<Rightarrow> bool \<Rightarrow> fluent_bundle" where
  "example_bundle registry isolating =
     \<lparr>messages_and_terms = registry, bundle_functions = Map.empty,
      use_isolating = isolating, plural_form = example_plural_form,
      babel_locale = example_format\<rparr>"

definition env0 :: resolver_environment where
  "env0 = initial_env (example_bundle Map.empty False) Map.empty"

text \<open>A term whose variant list has no default variant, and a message that selects from it.\<close>

definition variants_without_default :: "variant list" where
  "variants_without_default =
     [Variant (Identifier (ustr ''a'')) (Pattern 2 [TextElement (ustr ''A'')]) False]"

definition message_with_variant_expression :: node where
  "message_with_variant_expression =
     Message (Some (Pattern 1
       [Placeable (VariantExpression (TermReference (ustr ''-t'')) (Identifier (ustr ''b'')))]))"

section \<open>Relations between the environment at entry and at exit\<close>

text \<open>
  \<open>obeys N X m\<close>: whenever \<open>m\<close> returns, the environments before and after are
  related by \<open>N\<close>, and whenever it raises, by \<open>X\<close>. \<open>frame N X\<close> collects what
  the two relations must allow for every handler to obey them: the steps the resolver
  makes on the environment (appending a diagnostic, counting a part, entering and leaving
  a pattern, swapping and restoring the bindings) and their composition.
\<close>

definition obeys ::
  "(resolver_environment \<Rightarrow> resolver_environment \<Rightarrow> bool)
   \<Rightarrow> (resolver_environment \<Rightarrow> resolver_environment \<Rightarrow> bool) \<Rightarrow> 'a comp \<Rightarrow> bool" where
  "obeys N X m =
     (\<forall>env r env'. m env = Some (r, env') \<longrightarrow>
        (case r of Inr v \<Rightarrow> N env env' | Inl e \<Rightarrow> X env env'))"

definition frame ::
  "(resolver_environment \<Rightarrow> resolver_environment \<Rightarrow> bool)
   \<Rightarrow> (resolver_environment \<Rightarrow> resolver_environment \<Rightarrow> bool) \<Rightarrow> bool" where
  "frame N X =
     ((\<forall>e. N e e) \<and> (\<forall>e. X e e)
      \<and> (\<forall>a b c. N a b \<longrightarrow> N b c \<longrightarrow> N a c)
      \<and> (\<forall>a b c. N a b \<longrightarrow> X b c \<longrightarrow> X a c)
      \<and> (\<forall>e d. d \<noteq> TooManyParts \<longrightarrow> N e (append_error d e))
      \<and> (\<forall>e. part_count e + 1 \<noteq> MAX_PARTS + 1 \<longrightarrow> N e (e\<lparr>part_count := part_count e + 1\<rparr>))
      \<and> (\<forall>e. part_count e + 1 = MAX_PARTS + 1 \<longrightarrow>
             N e (append_error TooManyParts (e\<lparr>part_count := part_count e + 1\<rparr>)))
      \<and> (\<forall>e p e'. p \<notin> dirty e \<longrightarrow> N (e\<lparr>dirty := insert p (dirty e)\<rparr>) e' \<longrightarrow>
             N e (e'\<lparr>dirty := dirty e' - {p}\<rparr>))
      \<and> (\<forall>e p e'. p \<notin> dirty e \<longrightarrow> X (e\<lparr>dirty := insert p (dirty e)\<rparr>) e' \<longrightarrow> X e e')
      \<and> (\<forall>e c e'. N (e\<lparr>current := c\<rparr>) e' \<longrightarrow> N e (e'\<lparr>current := current e\<rparr>))
      \<and> (\<forall>e c e'. X (e\<lparr>current := c\<rparr>) e' \<longrightarrow> X e e'))"

definition ok ::
  "(resolver_environment \<Rightarrow> resolver_environment \<Rightarrow> bool)
   \<Rightarrow> (resolver_environment \<Rightarrow> resolver_environment \<Rightarrow> bool)
   \<Rightarrow> resolver_environment \<Rightarrow> ((exn + 'a) \<times> resolver_environment) option \<Rightarrow> bool" where
  "ok N X env res =
     (case res of None \<Rightarrow> True
      | Some (Inr v, env') \<Rightarrow> N env env'
      | Some (Inl e, env') \<Rightarrow> X env env')"

text \<open>A bundle whose term \<open>-t\<close> has no body, and one whose term refers to a variable.\<close>

definition with_missing_term :: resolver_environment where
  "with_missing_term = initial_env (example_bundle [ustr ''-t'' \<mapsto> Term None] False) Map.empty"

definition with_term :: resolver_environment where
  "with_term =
     initial_env
       (example_bundle
          [ustr ''-t'' \<mapsto> Term (Some (Pattern 7
             [TextElement (ustr ''T''), Placeable (VariableReference (ustr ''x''))]))] False)
       [ustr ''x'' \<mapsto> PyInt 1]"

text \<open>A message whose pattern is one reference to itself, and one that refers to itself twice.\<close>

definition self_reference :: "nat \<Rightarrow> ustring \<Rightarrow> node" where
  "self_reference pattern name =
     Message (Some (Pattern pattern [Placeable (Ref (MessageReference name))]))"

definition double_self_reference :: node where
  "double_self_reference =
     Message (Some (Pattern 1
       [Placeable (Ref (MessageReference (ustr ''a''))),
        Placeable (Ref (MessageReference (ustr ''a'')))]))"

text \<open>
  The part counter only grows, and the diagnostics gain one too-many-parts error exactly
  when the counter passes the ceiling.
\<close>

definition counted :: "resolver_environment \<Rightarrow> resolver_environment \<Rightarrow> bool" where
  "counted e e' =
     (part_count e \<le> part_count e'
      \<and> count_list (errors e') TooManyParts =
          count_list (errors e) TooManyParts
            + (if part_count e \<le> MAX_PARTS \<and> MAX_PARTS < part_count e' then 1 else 0))"

text \<open>A message of 1001 text elements.\<close>

definition thousand_and_one :: node where
  "thousand_and_one =
     Message (Some (Pattern 1 (map TextElement (replicate 1001 (ustr ''a'')))))"

section \<open>Well-formed bundles\<close>












section \<open>Computations that return\<close>

text \<open>
  \<open>le_comp m m'\<close>: wherever \<open>m\<close> ends within the recursion bound, \<open>m'\<close> has
  the same outcome; \<open>le_handle\<close> is the same for dispatchers.
\<close>

definition le_comp :: "'a comp \<Rightarrow> 'a comp \<Rightarrow> bool" where
  "le_comp m m' = (\<forall>env. m env = None \<or> m' env = m env)"

definition le_handle :: "(node \<Rightarrow> pyval comp) \<Rightarrow> (node \<Rightarrow> pyval comp) \<Rightarrow> bool" where
  "le_handle h h' = (\<forall>nd. le_comp (h nd) (h' nd))"

text \<open>
  \<open>budgeted ctx k env\<close>: an environment of the bundle \<open>ctx\<close> in which at most
  \<open>k\<close> parts are left before the ceiling. \<open>returns ctx k G m\<close>: from every such
  environment \<open>m\<close> ends within the recursion bound and without raising, with a value
  that satisfies \<open>G\<close>, in an environment of the same bundle whose part counter is not
  lower.
\<close>

definition budgeted :: "fluent_bundle \<Rightarrow> nat \<Rightarrow> resolver_environment \<Rightarrow> bool" where
  "budgeted ctx k env = (env_context env = ctx \<and> MAX_PARTS - part_count env \<le> int k)"

definition returns :: "fluent_bundle \<Rightarrow> nat \<Rightarrow> ('a \<Rightarrow> bool) \<Rightarrow> 'a comp \<Rightarrow> bool" where
  "returns ctx k G m =
     (\<forall>env. budgeted ctx k env \<longrightarrow>
        (\<exists>v env'. m env = Some (Inr v, env') \<and> env_context env' = ctx
           \<and> part_count env \<le> part_count env' \<and> G v))"





section \<open>Evaluation\<close>

lemma handle_numeral: "handle (numeral k) = dispatch (handle (pred_numeral k))"
  by (simp add: numeral_eq_Suc)

lemmas eval_defs =
  resolve_def initial_env_def fully_resolve_def fully_resolve_value_def handle_value_def
  handle_none_def bind_def ret_def raise_def append_error_def Let_def handle_numeral
  handle_opt_def handle_obj_def handle_pattern_def text_element_value_def
  handle_message_reference_def handle_term_reference_def handle_attribute_expression_def
  lookup_reference_def modified_def modified_for_term_reference_def
  handle_variable_reference_def supported_external_def
  select_from_variant_list_def handle_variant_list_def select_from_select_expression_def
  handle_select_expression_def handle_variant_expression_def node_value_def
  handle_call_expression_def call_term_def call_function_def
  MAX_PARTS_def MAX_PART_LENGTH_def FSI_def PDI_def ATTRIBUTE_SEPARATOR_def ustr_def
  example_bundle_def example_plural_form_def is_number_def is_FluentNone_def numeric_def py_eq_def match.simps

section \<open>Reference lookup\<close>

text \<open>
  C8. An attribute reference whose full identifier (base, separator, attribute name) is
  not in the registry records one unknown-reference diagnostic for the full identifier and
  is looked up again under the identifier of its base alone: the result is the base's node
  when the registry has it, and otherwise a placeholder carrying the full identifier, with
  no further diagnostic.
\<close>

theorem lookup_reference_attribute_fallback:
  assumes "messages_and_terms (env_context env)
             (reference_to_id ref @ ATTRIBUTE_SEPARATOR @ name) = None"
  shows "lookup_reference (AttributeExpression ref name) env =
           Some (Inr (case messages_and_terms (env_context env) (reference_to_id ref) of
                        Some nd \<Rightarrow> Node nd
                      | None \<Rightarrow> Val (FluentNone
                                (Some (reference_to_id ref @ ATTRIBUTE_SEPARATOR @ name)))),
                 env\<lparr>errors := errors env @
                    [UnknownReference (reference_to_id ref @ ATTRIBUTE_SEPARATOR @ name)]\<rparr>)"
  using assms
  by (simp add: lookup_reference_def ret_def append_error_def Let_def split: option.splits)

theorem lookup_reference_attribute_fallback_witness:
  "messages_and_terms
     (env_context (initial_env (example_bundle [ustr ''foo'' \<mapsto> Message None] False) Map.empty))
     (reference_to_id (MessageReference (ustr ''bar'')) @ ATTRIBUTE_SEPARATOR @ ustr ''a'') = None
   \<and> lookup_reference (AttributeExpression (MessageReference (ustr ''bar'')) (ustr ''a''))
       (initial_env (example_bundle [ustr ''foo'' \<mapsto> Message None] False) Map.empty) =
     Some (Inr (Val (FluentNone (Some (ustr ''bar.a'')))),
           (initial_env (example_bundle [ustr ''foo'' \<mapsto> Message None] False) Map.empty)
             \<lparr>errors := [UnknownReference (ustr ''bar.a'')]\<rparr>)"
  using lookup_reference_attribute_fallback
    [of "initial_env (example_bundle [ustr ''foo'' \<mapsto> Message None] False) Map.empty"
        "MessageReference (ustr ''bar'')" "ustr ''a''"]
  by (simp add: initial_env_def example_bundle_def ATTRIBUTE_SEPARATOR_def ustr_def)

section \<open>Variant lists without a default\<close>

text \<open>
  C4 (the code at the failing input). \<^verbatim>\<open>select_from_variant_list\<close> with a key that
  matches no variant, on a variant list without a default variant, reads the local
  \<^verbatim>\<open>default\<close> that was never assigned: the selection raises, and so does
  \<^verbatim>\<open>resolve\<close> on a message that selects from such a term. On the same variants,
  \<^verbatim>\<open>select_from_select_expression\<close>, which starts with \<^verbatim>\<open>default = None\<close>,
  returns a placeholder.
\<close>

theorem select_from_variant_list_unbound_default:
  "select_from_variant_list (handle 3) variants_without_default (PyStr (ustr ''b'')) env0 =
     Some (Inl UnboundLocalError, env0\<lparr>errors := [UnknownVariant (PyStr (ustr ''b''))]\<rparr>)
   \<and> resolve 10
       (example_bundle [ustr ''-t'' \<mapsto> Term (Some (VariantList variants_without_default))] False)
       message_with_variant_expression Map.empty = Some (Inl UnboundLocalError)
   \<and> select_from_select_expression (handle 3) variants_without_default (PyStr (ustr ''b'')) env0 =
       Some (Inr (FluentNone None), env0)"
  by (simp add: eval_defs env0_def variants_without_default_def message_with_variant_expression_def)

section \<open>Every handler obeys a frame\<close>

lemma obeysI:
  "(\<And>env v env'. m env = Some (Inr v, env') \<Longrightarrow> N env env')
   \<Longrightarrow> (\<And>env e env'. m env = Some (Inl e, env') \<Longrightarrow> X env env') \<Longrightarrow> obeys N X m"
  by (auto simp: obeys_def split: sum.splits)

lemma obeysD_ret: "obeys N X m \<Longrightarrow> m env = Some (Inr v, env') \<Longrightarrow> N env env'"
  unfolding obeys_def by fastforce

lemma obeysD_raise: "obeys N X m \<Longrightarrow> m env = Some (Inl e, env') \<Longrightarrow> X env env'"
  unfolding obeys_def by fastforce

lemma frame_refl: "frame N X \<Longrightarrow> N e e" "frame N X \<Longrightarrow> X e e"
  by (simp_all add: frame_def)

lemma frame_trans:
  assumes "frame N X" and "N a b" and "N b c"
  shows "N a c"
proof -
  from assms(1) have "\<forall>a b c. N a b \<longrightarrow> N b c \<longrightarrow> N a c"
    by (simp add: frame_def)
  with assms(2,3) show ?thesis by blast
qed

lemma frame_transX:
  assumes "frame N X" and "N a b" and "X b c"
  shows "X a c"
proof -
  from assms(1) have "\<forall>a b c. N a b \<longrightarrow> X b c \<longrightarrow> X a c"
    by (simp add: frame_def)
  with assms(2,3) show ?thesis by blast
qed

lemma frame_error: "frame N X \<Longrightarrow> d \<noteq> TooManyParts \<Longrightarrow> N e (append_error d e)"
  by (simp add: frame_def)

lemma frame_count:
  "frame N X \<Longrightarrow> part_count e + 1 \<noteq> MAX_PARTS + 1 \<Longrightarrow> N e (e\<lparr>part_count := part_count e + 1\<rparr>)"
  by (simp add: frame_def)

lemma frame_crossing:
  "frame N X \<Longrightarrow> part_count e + 1 = MAX_PARTS + 1
   \<Longrightarrow> N e (append_error TooManyParts (e\<lparr>part_count := part_count e + 1\<rparr>))"
  by (simp add: frame_def)

lemma frame_dirty:
  assumes "frame N X" and "p \<notin> dirty e" and "N (e\<lparr>dirty := insert p (dirty e)\<rparr>) e'"
  shows "N e (e'\<lparr>dirty := dirty e' - {p}\<rparr>)"
proof -
  from assms(1) have "\<forall>e p e'. p \<notin> dirty e \<longrightarrow> N (e\<lparr>dirty := insert p (dirty e)\<rparr>) e' \<longrightarrow>
      N e (e'\<lparr>dirty := dirty e' - {p}\<rparr>)"
    by (simp add: frame_def)
  with assms(2,3) show ?thesis by blast
qed

lemma frame_dirtyX:
  assumes "frame N X" and "p \<notin> dirty e" and "X (e\<lparr>dirty := insert p (dirty e)\<rparr>) e'"
  shows "X e e'"
proof -
  from assms(1) have "\<forall>e p e'. p \<notin> dirty e \<longrightarrow> X (e\<lparr>dirty := insert p (dirty e)\<rparr>) e' \<longrightarrow> X e e'"
    by (simp add: frame_def)
  with assms(2,3) show ?thesis by blast
qed

lemma frame_current:
  assumes "frame N X" and "N (e\<lparr>current := c\<rparr>) e'"
  shows "N e (e'\<lparr>current := current e\<rparr>)"
proof -
  from assms(1) have "\<forall>e c e'. N (e\<lparr>current := c\<rparr>) e' \<longrightarrow> N e (e'\<lparr>current := current e\<rparr>)"
    by (simp add: frame_def)
  with assms(2) show ?thesis by blast
qed

lemma frame_currentX:
  assumes "frame N X" and "X (e\<lparr>current := c\<rparr>) e'"
  shows "X e e'"
proof -
  from assms(1) have "\<forall>e c e'. X (e\<lparr>current := c\<rparr>) e' \<longrightarrow> X e e'"
    by (simp add: frame_def)
  with assms(2) show ?thesis by blast
qed

lemma obeys_ret: "frame N X \<Longrightarrow> obeys N X (ret v)"
  by (simp add: obeys_def ret_def frame_refl)

lemma obeys_raise: "frame N X \<Longrightarrow> obeys N X (raise e)"
  by (simp add: obeys_def raise_def frame_refl)

lemma obeys_bind:
  assumes fr: "frame N X" and m: "obeys N X m" and f: "\<And>v. obeys N X (f v)"
  shows "obeys N X (bind m f)"
proof (rule obeysI)
  fix env v env'
  assume "bind m f env = Some (Inr v, env')"
  then obtain w env1 where 1: "m env = Some (Inr w, env1)" and 2: "f w env1 = Some (Inr v, env')"
    by (auto simp: bind_def split: option.splits sum.splits prod.splits)
  from obeysD_ret [OF m 1] obeysD_ret [OF f 2] show "N env env'"
    by (rule frame_trans [OF fr])
next
  fix env e env'
  assume "bind m f env = Some (Inl e, env')"
  then consider "m env = Some (Inl e, env')"
    | w env1 where "m env = Some (Inr w, env1)" "f w env1 = Some (Inl e, env')"
    by (auto simp: bind_def split: option.splits sum.splits prod.splits)
  then show "X env env'"
  proof cases
    case 1
    then show ?thesis by (rule obeysD_raise [OF m])
  next
    case 2
    from obeysD_ret [OF m 2(1)] obeysD_raise [OF f 2(2)] show ?thesis
      by (rule frame_transX [OF fr])
  qed
qed

text \<open>A computation run after a step of the environment that the frame allows.\<close>

lemma obeys_after:
  assumes fr: "frame N X" and st: "\<And>env. N env (g env)" and m: "obeys N X m"
  shows "obeys N X (\<lambda>env. m (g env))"
proof (rule obeysI)
  fix env v env' assume "m (g env) = Some (Inr v, env')"
  from st obeysD_ret [OF m this] show "N env env'" by (rule frame_trans [OF fr])
next
  fix env e env' assume "m (g env) = Some (Inl e, env')"
  from st obeysD_raise [OF m this] show "X env env'" by (rule frame_transX [OF fr])
qed

lemma obeys_handle_value: "frame N X \<Longrightarrow> obeys N X (handle_value v)"
  by (rule obeysI)
    (auto simp: handle_value_def handle_none_def ret_def raise_def frame_refl split: pyval.splits)

lemma obeys_fully_resolve_value: "frame N X \<Longrightarrow> obeys N X (fully_resolve_value v)"
  by (cases v) (simp_all add: fully_resolve_value_def obeys_ret obeys_handle_value)

lemma obeys_fully_resolve:
  "frame N X \<Longrightarrow> (\<And>nd. obeys N X (h nd)) \<Longrightarrow> obeys N X (fully_resolve h expr)"
  by (simp add: fully_resolve_def obeys_bind obeys_fully_resolve_value)

lemma obeys_lookup_reference: "frame N X \<Longrightarrow> obeys N X (lookup_reference ref)"
  by (rule obeysI)
    (auto simp: lookup_reference_def ret_def Let_def frame_refl frame_error
      split: option.splits reference.splits)

lemma obeys_handle_obj:
  "frame N X \<Longrightarrow> (\<And>nd. obeys N X (h nd)) \<Longrightarrow> obeys N X (handle_obj h x)"
  by (cases x) (simp_all add: handle_obj_def obeys_bind obeys_handle_value obeys_ret)

lemma obeys_handle_opt:
  "frame N X \<Longrightarrow> (\<And>nd. obeys N X (h nd)) \<Longrightarrow> obeys N X (handle_opt h x)"
  by (cases x) (simp_all add: handle_opt_def handle_none_def obeys_raise)

lemma obeys_modified:
  assumes fr: "frame N X" and m: "obeys N X m"
  shows "obeys N X (modified f m)"
proof (rule obeysI)
  fix env v env' assume "modified f m env = Some (Inr v, env')"
  then obtain env1 where 1: "m (env\<lparr>current := f (current env)\<rparr>) = Some (Inr v, env1)"
    and 2: "env' = env1\<lparr>current := current env\<rparr>"
    by (auto simp: modified_def Let_def split: option.splits sum.splits prod.splits)
  from obeysD_ret [OF m 1] show "N env env'" unfolding 2 by (rule frame_current [OF fr])
next
  fix env e env' assume "modified f m env = Some (Inl e, env')"
  then have 1: "m (env\<lparr>current := f (current env)\<rparr>) = Some (Inl e, env')"
    by (auto simp: modified_def Let_def split: option.splits sum.splits prod.splits)
  from obeysD_raise [OF m 1] show "X env env'" by (rule frame_currentX [OF fr])
qed

lemma obeys_handle_variable_reference:
  "frame N X \<Longrightarrow> obeys N X (handle_variable_reference name)"
  by (rule obeysI)
    (auto simp: handle_variable_reference_def ret_def frame_refl frame_error
      split: option.splits if_splits)


lemma obeys_ok: "obeys N X m = (\<forall>env. ok N X env (m env))"
  by (auto simp: obeys_def ok_def split: option.splits sum.splits)

lemma ok_after:
  assumes fr: "frame N X" and st: "N env env1" and m: "obeys N X m"
  shows "ok N X env (m env1)"
proof (cases "m env1")
  case None
  then show ?thesis by (simp add: ok_def)
next
  case (Some a)
  obtain r env' where a: "a = (r, env')" by (cases a)
  show ?thesis
  proof (cases r)
    case (Inl e)
    with Some a have "m env1 = Some (Inl e, env')" by simp
    from frame_transX [OF fr st obeysD_raise [OF m this]] Some a Inl show ?thesis
      by (simp add: ok_def)
  next
    case (Inr v)
    with Some a have "m env1 = Some (Inr v, env')" by simp
    from frame_trans [OF fr st obeysD_ret [OF m this]] Some a Inr show ?thesis
      by (simp add: ok_def)
  qed
qed

lemma ok_here: "frame N X \<Longrightarrow> obeys N X m \<Longrightarrow> ok N X env (m env)"
  by (simp add: obeys_ok)

lemma obeys_handle_pattern_elements:
  assumes fr: "frame N X" and h: "\<And>nd. obeys N X (h nd)"
  shows "obeys N X (handle_pattern_elements h use_iso elements parts)"
proof (induction elements arbitrary: parts)
  case Nil
  show ?case by (simp add: obeys_ok ok_def ret_def frame_refl [OF fr])
next
  case (Cons element rest)
  show ?case unfolding obeys_ok
  proof
    fix env :: resolver_environment
    show "ok N X env (handle_pattern_elements h use_iso (element # rest) parts env)"
    proof (cases "part_count env + 1 > MAX_PARTS")
      case True
      show ?thesis
      proof (cases "part_count env + 1 = MAX_PARTS + 1")
        case eq: True
        have "obeys N X (bind (fully_resolve_value (FluentNone None)) (\<lambda>s. ret (parts @ [s])))"
          by (intro obeys_bind fr obeys_fully_resolve_value obeys_ret)
        from ok_after [OF fr frame_crossing [OF fr eq] this] True eq show ?thesis
          by simp
      next
        case neq: False
        from ok_after [OF fr frame_count [OF fr neq] obeys_ret [OF fr, of parts]] True neq
        show ?thesis by simp
      qed
    next
      case False
      then have neq: "part_count env + 1 \<noteq> MAX_PARTS + 1" by simp
      show ?thesis
      proof (cases "text_element_value element")
        case (Some v)
        from ok_after [OF fr frame_count [OF fr neq] Cons.IH [of "parts @ [v]"]] False Some
        show ?thesis by simp
      next
        case None
        have "obeys N X (bind (fully_resolve h element)
               (\<lambda>part env2.
                  let parts1 = (if use_iso then parts @ [FSI] else parts);
                      env3 = (if length part > MAX_PART_LENGTH
                              then append_error (PartTooLong (length part)) env2 else env2);
                      part1 = (if length part > MAX_PART_LENGTH
                               then take MAX_PART_LENGTH part else part);
                      parts2 = parts1 @ [part1];
                      parts3 = (if use_iso then parts2 @ [PDI] else parts2)
                  in handle_pattern_elements h use_iso rest parts3 env3))"
        proof (intro obeys_bind fr obeys_fully_resolve h)
          fix part
          show "obeys N X (\<lambda>env2.
                  let parts1 = (if use_iso then parts @ [FSI] else parts);
                      env3 = (if length part > MAX_PART_LENGTH
                              then append_error (PartTooLong (length part)) env2 else env2);
                      part1 = (if length part > MAX_PART_LENGTH
                               then take MAX_PART_LENGTH part else part);
                      parts2 = parts1 @ [part1];
                      parts3 = (if use_iso then parts2 @ [PDI] else parts2)
                  in handle_pattern_elements h use_iso rest parts3 env3)"
            unfolding obeys_ok Let_def
          proof
            fix env2 :: resolver_environment
            show "ok N X env2
               (handle_pattern_elements h use_iso rest
                 (if use_iso
                  then ((if use_iso then parts @ [FSI] else parts) @
                        [if MAX_PART_LENGTH < length part then take MAX_PART_LENGTH part else part]) @ [PDI]
                  else (if use_iso then parts @ [FSI] else parts) @
                       [if MAX_PART_LENGTH < length part then take MAX_PART_LENGTH part else part])
                 (if MAX_PART_LENGTH < length part
                  then append_error (PartTooLong (length part)) env2 else env2))"
            proof (cases "MAX_PART_LENGTH < length part")
              case True
              from ok_after [OF fr frame_error [OF fr, of "PartTooLong (length part)" env2] Cons.IH]
                True show ?thesis by simp
            next
              case False
              from ok_here [OF fr Cons.IH] False show ?thesis by simp
            qed
          qed
        qed
        from ok_after [OF fr frame_count [OF fr neq] this] False None
        show ?thesis by simp
      qed
    qed
  qed
qed

lemma obeys_handle_pattern:
  assumes fr: "frame N X" and h: "\<And>nd. obeys N X (h nd)"
  shows "obeys N X (handle_pattern h pattern elements)"
proof (rule obeysI)
  fix env v env'
  assume a: "handle_pattern h pattern elements env = Some (Inr v, env')"
  show "N env env'"
  proof (cases "pattern \<in> dirty env")
    case True
    with a show ?thesis
      by (auto simp: handle_pattern_def ret_def frame_error [OF fr])
  next
    case False
    with a obtain parts env2 where
      1: "handle_pattern_elements h (use_isolating (env_context env) \<and> length elements > 1)
            elements [] (env\<lparr>dirty := insert pattern (dirty env)\<rparr>) = Some (Inr parts, env2)"
      and 2: "env' = env2\<lparr>dirty := dirty env2 - {pattern}\<rparr>"
      by (auto simp: handle_pattern_def bind_def ret_def Let_def
          split: option.splits sum.splits prod.splits)
    from obeysD_ret [OF obeys_handle_pattern_elements [OF fr h] 1]
    show ?thesis unfolding 2 by (rule frame_dirty [OF fr False])
  qed
next
  fix env e env'
  assume a: "handle_pattern h pattern elements env = Some (Inl e, env')"
  show "X env env'"
  proof (cases "pattern \<in> dirty env")
    case True
    with a show ?thesis by (auto simp: handle_pattern_def ret_def)
  next
    case False
    with a have
      1: "handle_pattern_elements h (use_isolating (env_context env) \<and> length elements > 1)
            elements [] (env\<lparr>dirty := insert pattern (dirty env)\<rparr>) = Some (Inl e, env')"
      by (auto simp: handle_pattern_def bind_def ret_def Let_def
          split: option.splits sum.splits prod.splits)
    from obeysD_raise [OF obeys_handle_pattern_elements [OF fr h] 1]
    show ?thesis by (rule frame_dirtyX [OF fr False])
  qed
qed


lemma obeys_cond:
  "(\<And>env. c env \<Longrightarrow> ok N X env (m1 env)) \<Longrightarrow> (\<And>env. \<not> c env \<Longrightarrow> ok N X env (m2 env))
   \<Longrightarrow> obeys N X (\<lambda>env. if c env then m1 env else m2 env)"
  by (simp add: obeys_ok)

lemma obeys_variant_list_loop:
  assumes fr: "frame N X" and h: "\<And>nd. obeys N X (h nd)"
  shows "obeys N X (variant_list_loop h variants key dflt)"
proof (induction variants arbitrary: dflt)
  case Nil
  show ?case by (simp add: obeys_ret [OF fr])
next
  case (Cons variant rest)
  have "obeys N X (bind (h (variant_key variant))
          (\<lambda>compare_value env.
             if match key compare_value env then ret (Some variant, d) env
             else variant_list_loop h rest key d env))" for d
    by (intro obeys_bind fr h obeys_cond ok_here [OF fr] obeys_ret Cons.IH)
  then show ?case by (simp add: Let_def obeys_ret [OF fr])
qed

lemma obeys_select_expression_loop:
  assumes fr: "frame N X" and h: "\<And>nd. obeys N X (h nd)"
  shows "obeys N X (select_expression_loop h variants key dflt)"
proof (induction variants arbitrary: dflt)
  case Nil
  show ?case by (simp add: obeys_ret [OF fr])
next
  case (Cons variant rest)
  have "obeys N X (bind (h (variant_key variant))
          (\<lambda>compare_value env.
             if match key compare_value env then ret (Some variant, d) env
             else select_expression_loop h rest key d env))" for d
    by (intro obeys_bind fr h obeys_cond ok_here [OF fr] obeys_ret Cons.IH)
  then show ?case by (simp add: Let_def)
qed

lemma obeys_select_from_variant_list:
  assumes fr: "frame N X" and h: "\<And>nd. obeys N X (h nd)"
  shows "obeys N X (select_from_variant_list h variants key)"
  unfolding select_from_variant_list_def
proof (intro obeys_bind fr obeys_variant_list_loop h)
  fix fd :: "variant option \<times> variant option"
  obtain found dflt where fd: "fd = (found, dflt)" by (cases fd)
  have tail: "obeys N X (case dflt of None \<Rightarrow> raise UnboundLocalError
                         | Some variant \<Rightarrow> h (variant_value variant))"
    by (cases dflt) (simp_all add: obeys_raise [OF fr] h)
  show "obeys N X (case fd of (found, dflt) \<Rightarrow> \<lambda>env.
          case found of
            Some variant \<Rightarrow> h (variant_value variant) env
          | None \<Rightarrow>
              (let env1 = (if key \<noteq> PyNone \<and> \<not> is_FluentNone key
                           then append_error (UnknownVariant key) env else env)
               in case dflt of
                    None \<Rightarrow> raise UnboundLocalError env1
                  | Some variant \<Rightarrow> h (variant_value variant) env1))"
  proof (cases found)
    case (Some variant)
    with fd h [of "variant_value variant"] show ?thesis by (simp add: obeys_ok)
  next
    case None
    show ?thesis unfolding obeys_ok
    proof
      fix env :: resolver_environment
      show "ok N X env ((case fd of (found, dflt) \<Rightarrow> \<lambda>env.
          case found of
            Some variant \<Rightarrow> h (variant_value variant) env
          | None \<Rightarrow>
              (let env1 = (if key \<noteq> PyNone \<and> \<not> is_FluentNone key
                           then append_error (UnknownVariant key) env else env)
               in case dflt of
                    None \<Rightarrow> raise UnboundLocalError env1
                  | Some variant \<Rightarrow> h (variant_value variant) env1)) env)"
      proof (cases "key \<noteq> PyNone \<and> \<not> is_FluentNone key")
        case True
        from ok_after [OF fr frame_error [OF fr, of "UnknownVariant key" env] tail] True fd None
        show ?thesis by (cases dflt) simp_all
      next
        case False
        from ok_here [OF fr tail, of env] False fd None
        show ?thesis by (cases dflt) auto
      qed
    qed
  qed
qed

lemma obeys_select_from_select_expression:
  assumes fr: "frame N X" and h: "\<And>nd. obeys N X (h nd)"
  shows "obeys N X (select_from_select_expression h variants key)"
  unfolding select_from_select_expression_def
proof (intro obeys_bind fr obeys_select_expression_loop h)
  fix fd :: "variant option \<times> variant option"
  show "obeys N X (case fd of (found, dflt) \<Rightarrow>
          case (case found of None \<Rightarrow> dflt | Some variant \<Rightarrow> Some variant) of
            None \<Rightarrow> ret (FluentNone None)
          | Some variant \<Rightarrow> h (variant_value variant))"
    by (auto simp: obeys_ret [OF fr] h split: prod.splits option.splits)
qed

lemma obeys_handle_variant_expression:
  assumes fr: "frame N X" and h: "\<And>nd. obeys N X (h nd)"
  shows "obeys N X (handle_variant_expression h ref key)"
  unfolding handle_variant_expression_def
proof (intro obeys_bind fr obeys_lookup_reference)
  fix message
  show "obeys N X (case message of
            Val v \<Rightarrow> ret v
          | Node nd \<Rightarrow>
              (case node_value nd of
                 None \<Rightarrow> raise AttributeError
               | Some (Some (VariantList variants)) \<Rightarrow>
                   (case key of
                      Identifier variant_name \<Rightarrow>
                        select_from_variant_list h variants (PyStr variant_name)
                    | _ \<Rightarrow> raise AttributeError)
               | Some _ \<Rightarrow> raise AssertionError))"
    by (auto simp: obeys_ret [OF fr] obeys_raise [OF fr]
        obeys_select_from_variant_list [OF fr h]
        split: obj.splits option.splits node.splits)
qed

lemma obeys_handle_positional:
  assumes fr: "frame N X" and h: "\<And>nd. obeys N X (h nd)"
  shows "obeys N X (handle_positional h positional)"
  by (induction positional) (simp_all add: obeys_ret [OF fr] obeys_bind [OF fr] h)

lemma obeys_handle_named:
  assumes fr: "frame N X" and h: "\<And>nd. obeys N X (h nd)"
  shows "obeys N X (handle_named h named kwargs)"
  by (induction named arbitrary: kwargs) (simp_all add: obeys_ret [OF fr] obeys_bind [OF fr] h)

lemma frame_argument_errors:
  assumes fr: "frame N X"
  shows "N env (env\<lparr>errors := errors env @ map FunctionArgumentError xs\<rparr>)"
proof (induction xs rule: rev_induct)
  case Nil
  show ?case by (simp add: frame_refl [OF fr])
next
  case (snoc x xs)
  have "N (env\<lparr>errors := errors env @ map FunctionArgumentError xs\<rparr>)
          (append_error (FunctionArgumentError x)
            (env\<lparr>errors := errors env @ map FunctionArgumentError xs\<rparr>))"
    by (rule frame_error [OF fr]) simp
  from frame_trans [OF fr snoc.IH this] show ?case by (simp add: append_error_def)
qed

lemma obeys_call_function:
  assumes fr: "frame N X"
  shows "obeys N X (call_function function_name arg_vals kwargs)"
  unfolding obeys_ok
proof
  fix env :: resolver_environment
  show "ok N X env (call_function function_name arg_vals kwargs env)"
  proof (cases "bundle_functions (env_context env) function_name")
    case None
    from ok_after [OF fr frame_error [OF fr, of "UnknownFunction function_name" env]
        obeys_ret [OF fr, of "FluentNone (Some (function_name @ ustr ''()''))"]] None
    show ?thesis by (simp add: call_function_def)
  next
    case (Some f)
    obtain matched sargs skwargs errs where am: "args_match f arg_vals kwargs = (matched, sargs, skwargs, errs)"
      by (cases "args_match f arg_vals kwargs") auto
    let ?env2 = "env\<lparr>errors := errors env @ map FunctionArgumentError (inspect_errors f @ errs)\<rparr>"
    have st: "N env ?env2" by (rule frame_argument_errors [OF fr])
    have "obeys N X (if matched then (case call f sargs skwargs of Inl e \<Rightarrow> raise e | Inr v \<Rightarrow> ret v)
                     else ret (FluentNone (Some (function_name @ ustr ''()''))))"
      by (auto simp: obeys_ret [OF fr] obeys_raise [OF fr] split: sum.splits)
    from ok_after [OF fr st this] Some am show ?thesis
      by (auto simp: call_function_def Let_def split: sum.splits)
  qed
qed

lemma obeys_call_term:
  assumes fr: "frame N X" and h: "\<And>nd. obeys N X (h nd)"
  shows "obeys N X (call_term h callee_ref arg_vals kwargs)"
  unfolding call_term_def
proof (intro obeys_bind fr obeys_lookup_reference)
  fix t
  have m: "obeys N X (modified_for_term_reference (Some kwargs) (handle_obj h t))"
    unfolding modified_for_term_reference_def
    by (intro obeys_modified fr obeys_handle_obj h)
  show "obeys N X (\<lambda>env.
          let env1 = (if arg_vals \<noteq> []
                      then append_error (IgnoredPositionalArguments (reference_to_id callee_ref)) env
                      else env)
          in modified_for_term_reference (Some kwargs) (handle_obj h t) env1)"
    unfolding obeys_ok
  proof
    fix env :: resolver_environment
    show "ok N X env (let env1 = (if arg_vals \<noteq> []
                      then append_error (IgnoredPositionalArguments (reference_to_id callee_ref)) env
                      else env)
          in modified_for_term_reference (Some kwargs) (handle_obj h t) env1)"
    proof (cases "arg_vals \<noteq> []")
      case True
      from ok_after [OF fr frame_error [OF fr,
            of "IgnoredPositionalArguments (reference_to_id callee_ref)" env] m] True
      show ?thesis by simp
    next
      case False
      from ok_here [OF fr m, of env] False show ?thesis by simp
    qed
  qed
qed

lemma obeys_handle_call_expression:
  assumes fr: "frame N X" and h: "\<And>nd. obeys N X (h nd)"
  shows "obeys N X (handle_call_expression h callee positional named)"
  unfolding handle_call_expression_def
  by (intro obeys_bind fr obeys_handle_positional obeys_handle_named h)
    (auto simp: obeys_call_term [OF fr h] obeys_call_function [OF fr]
      split: callee.splits reference.splits)

lemma obeys_dispatch:
  assumes fr: "frame N X" and h: "\<And>nd. obeys N X (h nd)"
  shows "obeys N X (dispatch h nd)"
proof (cases nd)
  case (Ref ref)
  then show ?thesis
    by (cases ref)
      (simp_all add: handle_message_reference_def handle_term_reference_def
        handle_attribute_expression_def modified_for_term_reference_def
        obeys_bind [OF fr] obeys_lookup_reference [OF fr] obeys_handle_obj [OF fr h]
        obeys_modified [OF fr])
qed (simp_all add: obeys_handle_opt [OF fr h] h obeys_handle_pattern [OF fr h] obeys_ret [OF fr]
    obeys_handle_variable_reference [OF fr] handle_variant_list_def
    obeys_select_from_variant_list [OF fr h] handle_select_expression_def
    obeys_bind [OF fr] obeys_select_from_select_expression [OF fr h]
    obeys_handle_variant_expression [OF fr h] obeys_handle_call_expression [OF fr h])

lemma obeys_handle: "frame N X \<Longrightarrow> obeys N X (handle n nd)"
proof (induction n arbitrary: nd)
  case 0
  show ?case by (simp add: obeys_def)
next
  case (Suc n)
  then show ?case by (simp add: obeys_dispatch)
qed

section \<open>Scoped bindings\<close>

lemma frame_current_kept: "frame (\<lambda>e e'. current e' = current e) (\<lambda>e e'. True)"
  by (simp add: frame_def append_error_def)

text \<open>
  C2 (as the claim states it, refuted). A reference to a term without a body raises inside
  the \<^verbatim>\<open>with\<close> block of \<^verbatim>\<open>handle_term_reference\<close>; the environment the exception
  leaves behind still has the replacement bindings.
\<close>

theorem bindings_not_restored_on_raise:
  "handle 3 (Ref (TermReference (ustr ''-t''))) with_missing_term =
     Some (Inl LookupError,
       with_missing_term\<lparr>current := \<lparr>args = Map.empty, error_for_missing_arg = False\<rparr>\<rparr>)
   \<and> current (with_missing_term\<lparr>current := \<lparr>args = Map.empty, error_for_missing_arg = False\<rparr>\<rparr>)
       \<noteq> current with_missing_term"
  by (simp add: with_missing_term_def eval_defs)

text \<open>
  C2 (amended). Every evaluation that returns leaves the bindings of the environment as
  they were at its start; \<^verbatim>\<open>modified\<close> runs its body under the replacement
  bindings and, when the body returns, puts the previous bindings back once; when the body
  raises, the environment is what the body left, and the exception goes on.
\<close>

theorem bindings_restored_on_return:
  "(handle n nd env = Some (Inr v, env') \<longrightarrow> current env' = current env)
   \<and> (modified replacements body env = Some (Inr v, env') \<longleftrightarrow>
        (\<exists>env1. body (env\<lparr>current := replacements (current env)\<rparr>) = Some (Inr v, env1)
                \<and> env' = env1\<lparr>current := current env\<rparr>))
   \<and> (modified replacements body env = Some (Inl e, env') \<longleftrightarrow>
        body (env\<lparr>current := replacements (current env)\<rparr>) = Some (Inl e, env'))"
proof -
  have "handle n nd env = Some (Inr v, env') \<longrightarrow> current env' = current env"
    using obeysD_ret [OF obeys_handle [OF frame_current_kept]] by blast
  then show ?thesis
    by (auto simp: modified_def Let_def split: option.splits sum.splits prod.splits)
qed

theorem bindings_restored_on_return_witness:
  "handle 6 (Ref (TermReference (ustr ''-t''))) with_term =
     Some (Inr (PyStr (ustr ''Tx'')), with_term\<lparr>part_count := 2\<rparr>)
   \<and> current (with_term\<lparr>part_count := 2\<rparr>) = current with_term"
  using bindings_restored_on_return
    [of 6 "Ref (TermReference (ustr ''-t''))" with_term "PyStr (ustr ''Tx'')"
        "with_term\<lparr>part_count := 2\<rparr>"]
  by (simp add: with_term_def eval_defs)

section \<open>Cyclic references\<close>

lemma frame_dirty_kept: "frame (\<lambda>e e'. dirty e' = dirty e) (\<lambda>e e'. True)"
  by (auto simp: frame_def append_error_def)

text \<open>
  C3 (as the claim states it, refuted). A message whose pattern refers to itself twice
  gets two cyclic-reference diagnostics, one for each time the pattern is entered again.
\<close>

theorem two_cyclic_diagnostics:
  "resolve 10 (example_bundle [ustr ''a'' \<mapsto> double_self_reference] False)
     double_self_reference Map.empty =
   Some (Inr (ustr ''??????'', [CyclicReference, CyclicReference]))"
  by (simp add: double_self_reference_def eval_defs)

text \<open>
  C3 (amended). Entering a pattern that is in the guard set appends one cyclic-reference
  diagnostic and returns a placeholder, and changes nothing else, the guard set included.
  Entering a pattern that is not in the guard set processes the elements with the pattern
  added to the set, and takes it out when the loop has returned; every evaluation that
  returns leaves the guard set as it was. So a message whose pattern is a single
  reference to itself resolves to the text of the placeholder (as long as that text is
  within the length ceiling for parts) with exactly one cyclic-reference diagnostic.
\<close>

theorem cyclic_reference_guard:
  "(pattern \<in> dirty env \<longrightarrow>
      handle_pattern h pattern elements env =
        Some (Inr (FluentNone None), env\<lparr>errors := errors env @ [CyclicReference]\<rparr>))
   \<and> (pattern \<notin> dirty env \<longrightarrow>
      handle_pattern h pattern elements env =
        bind (handle_pattern_elements h
                (use_isolating (env_context env) \<and> 1 < length elements) elements [])
          (\<lambda>parts env2. ret (PyStr (concat parts)) (env2\<lparr>dirty := dirty env2 - {pattern}\<rparr>))
          (env\<lparr>dirty := insert pattern (dirty env)\<rparr>))
   \<and> (handle n nd env = Some (Inr v, env') \<longrightarrow> dirty env' = dirty env)
   \<and> (messages_and_terms ctx name = Some (self_reference p name)
        \<and> length (babel_locale ctx (FluentNone None)) \<le> MAX_PART_LENGTH \<longrightarrow>
      resolve (Suc (Suc (Suc (Suc (Suc (Suc k)))))) ctx (self_reference p name) arg_map =
        Some (Inr (babel_locale ctx (FluentNone None), [CyclicReference])))"
proof -
  have 1: "handle n nd env = Some (Inr v, env') \<longrightarrow> dirty env' = dirty env"
    using obeysD_ret [OF obeys_handle [OF frame_dirty_kept]] by blast
  have 2: "messages_and_terms ctx name = Some (self_reference p name)
        \<and> length (babel_locale ctx (FluentNone None)) \<le> MAX_PART_LENGTH \<longrightarrow>
      resolve (Suc (Suc (Suc (Suc (Suc (Suc k)))))) ctx (self_reference p name) arg_map =
        Some (Inr (babel_locale ctx (FluentNone None), [CyclicReference]))"
    by (simp add: self_reference_def resolve_def initial_env_def fully_resolve_def
        fully_resolve_value_def handle_value_def bind_def ret_def append_error_def Let_def
        handle_opt_def handle_obj_def handle_pattern_def text_element_value_def
        handle_message_reference_def lookup_reference_def MAX_PARTS_def MAX_PART_LENGTH_def)
  show ?thesis
    using 1 2 by (simp add: handle_pattern_def ret_def append_error_def Let_def)
qed

theorem cyclic_reference_guard_witness:
  "resolve 6 (example_bundle [ustr ''a'' \<mapsto> self_reference 1 (ustr ''a'')] True)
     (self_reference 1 (ustr ''a'')) Map.empty = Some (Inr (ustr ''???'', [CyclicReference]))
   \<and> handle_pattern (handle 2) 1 [TextElement (ustr ''x'')] (env0\<lparr>dirty := {1}\<rparr>) =
       Some (Inr (FluentNone None), env0\<lparr>dirty := {1}, errors := [CyclicReference]\<rparr>)
   \<and> handle_pattern (handle 2) 1 [TextElement (ustr ''x'')] env0 =
       Some (Inr (PyStr (ustr ''x'')), env0\<lparr>part_count := 1\<rparr>)
   \<and> dirty (env0\<lparr>part_count := 1\<rparr>) = dirty env0"
  using cyclic_reference_guard
      [of 1 "env0\<lparr>dirty := {1}\<rparr>" "handle 2" "[TextElement (ustr ''x'')]"
          3 "Pattern 1 [TextElement (ustr ''x'')]" "PyStr (ustr ''x'')" "env0\<lparr>part_count := 1\<rparr>"
          "example_bundle [ustr ''a'' \<mapsto> self_reference 1 (ustr ''a'')] True" "ustr ''a''" 1 0 Map.empty]
    cyclic_reference_guard
      [of 1 env0 "handle 2" "[TextElement (ustr ''x'')]"
          3 "Pattern 1 [TextElement (ustr ''x'')]" "PyStr (ustr ''x'')" "env0\<lparr>part_count := 1\<rparr>"
          "example_bundle [ustr ''a'' \<mapsto> self_reference 1 (ustr ''a'')] True" "ustr ''a''" 1 0 Map.empty]
  by (simp add: env0_def self_reference_def eval_defs)

section \<open>The part counter\<close>

lemma frame_counted: "frame counted counted"
  unfolding frame_def
proof (intro conjI allI impI)
  fix a b c assume "counted a b" "counted b c"
  then show "counted a c" by (auto simp: counted_def split: if_splits)
next
  fix a b c assume "counted a b" "counted b c"
  then show "counted a c" by (auto simp: counted_def split: if_splits)
qed (auto simp: counted_def append_error_def)

lemma fully_resolve_value_placeholder:
  "fully_resolve_value (FluentNone name) env =
     Some (Inr (babel_locale (env_context env) (FluentNone name)), env)"
  by (simp add: fully_resolve_value_def handle_value_def ret_def)

lemma elements_at_ceiling:
  "part_count env = MAX_PARTS \<Longrightarrow>
   handle_pattern_elements h use_iso (element # rest) parts env =
     Some (Inr (parts @ [babel_locale (env_context env) (FluentNone None)]),
           env\<lparr>part_count := MAX_PARTS + 1, errors := errors env @ [TooManyParts]\<rparr>)"
  by (simp add: bind_def ret_def append_error_def fully_resolve_value_placeholder)

lemma elements_above_ceiling:
  "part_count env > MAX_PARTS \<Longrightarrow>
   handle_pattern_elements h use_iso (element # rest) parts env =
     Some (Inr parts, env\<lparr>part_count := part_count env + 1\<rparr>)"
  by (simp add: ret_def)

lemma elements_append:
  "handle_pattern_elements h use_iso pre parts env = Some (Inr parts1, env1)
   \<Longrightarrow> part_count env1 \<le> MAX_PARTS
   \<Longrightarrow> handle_pattern_elements h use_iso (pre @ post) parts env =
       handle_pattern_elements h use_iso post parts1 env1"
proof (induction pre arbitrary: parts env)
  case Nil
  then show ?case by (simp add: ret_def)
next
  case (Cons element pre)
  show ?case
  proof (cases "part_count env + 1 > MAX_PARTS")
    case True
    with Cons.prems show ?thesis
      by (auto simp: bind_def ret_def append_error_def fully_resolve_value_placeholder Let_def
          split: if_splits)
  next
    case False
    show ?thesis
    proof (cases "text_element_value element")
      case (Some v)
      with False Cons.prems Cons.IH [of "parts @ [v]" "env\<lparr>part_count := part_count env + 1\<rparr>"]
      show ?thesis by simp
    next
      case None
      with False Cons.prems obtain part env2 where
        fr: "fully_resolve h element (env\<lparr>part_count := part_count env + 1\<rparr>) = Some (Inr part, env2)"
        by (auto simp: bind_def split: option.splits sum.splits prod.splits)
      let ?parts3 = "parts @ (if use_iso then [FSI] else [])
          @ [if length part > MAX_PART_LENGTH then take MAX_PART_LENGTH part else part]
          @ (if use_iso then [PDI] else [])"
      let ?env3 = "if length part > MAX_PART_LENGTH
          then append_error (PartTooLong (length part)) env2 else env2"
      from fr None False have eq: "handle_pattern_elements h use_iso (element # es) parts env =
          handle_pattern_elements h use_iso es ?parts3 ?env3" for es
        by (simp add: bind_def Let_def)
      from Cons.prems(1) have "handle_pattern_elements h use_iso pre ?parts3 ?env3 =
          Some (Inr parts1, env1)"
        unfolding eq .
      then have "handle_pattern_elements h use_iso (pre @ post) ?parts3 ?env3 =
          handle_pattern_elements h use_iso post parts1 env1"
        using Cons.prems(2) by (rule Cons.IH)
      then show ?thesis
        unfolding append_Cons eq .
    qed
  qed
qed

lemma text_elements_run:
  "part_count env + int (length texts) \<le> MAX_PARTS \<Longrightarrow>
   handle_pattern_elements h use_iso (map TextElement texts) parts env =
     Some (Inr (parts @ texts), env\<lparr>part_count := part_count env + int (length texts)\<rparr>)"
proof (induction texts arbitrary: parts env)
  case Nil
  then show ?case by (simp add: ret_def)
next
  case (Cons t texts)
  from Cons.prems Cons.IH [of "env\<lparr>part_count := part_count env + 1\<rparr>" "parts @ [t]"]
  show ?case by (simp add: text_element_value_def add.assoc)
qed


lemma elements_reach_ceiling:
  assumes "handle_pattern_elements h use_iso pre parts env = Some (Inr parts1, env1)"
    and "part_count env1 = MAX_PARTS"
  shows "handle_pattern_elements h use_iso (pre @ element # rest) parts env =
     Some (Inr (parts1 @ [babel_locale (env_context env1) (FluentNone None)]),
           env1\<lparr>part_count := MAX_PARTS + 1, errors := errors env1 @ [TooManyParts]\<rparr>)"
proof -
  from assms have "handle_pattern_elements h use_iso (pre @ element # rest) parts env =
      handle_pattern_elements h use_iso (element # rest) parts1 env1"
    by (intro elements_append) simp_all
  with assms(2) show ?thesis by (simp only: elements_at_ceiling)
qed

lemma resolve_text_elements:
  assumes len: "length texts = 1001"
  shows "resolve (Suc (Suc k)) ctx (Message (Some (Pattern p (map TextElement texts)))) arg_map =
     Some (Inr (concat (take 1000 texts) @ babel_locale ctx (FluentNone None), [TooManyParts]))"
proof -
  let ?env = "(initial_env ctx arg_map)\<lparr>dirty := {p}\<rparr>"
  let ?iso = "use_isolating ctx \<and> 1 < length (map TextElement texts)"
  from len have split: "texts = take 1000 texts @ [texts ! 1000]"
    by (metis Suc_eq_plus1 add.commute lessI numeral_plus_one semiring_norm(5)
        take_Suc_conv_app_nth take_all_iff le_refl eval_nat_numeral(3) numeral_One)
  have run: "handle_pattern_elements (handle k) ?iso (map TextElement (take 1000 texts)) [] ?env =
      Some (Inr (take 1000 texts), ?env\<lparr>part_count := 1000\<rparr>)"
    using text_elements_run [of ?env "take 1000 texts" "handle k" ?iso "[]"] len
    by (simp add: initial_env_def MAX_PARTS_def)
  have "handle_pattern_elements (handle k) ?iso
          (map TextElement (take 1000 texts) @ TextElement (texts ! 1000) # []) [] ?env =
      Some (Inr (take 1000 texts @ [babel_locale ctx (FluentNone None)]),
            ?env\<lparr>part_count := 1001, errors := [TooManyParts]\<rparr>)"
    using elements_reach_ceiling [OF run, of "TextElement (texts ! 1000)" "[]"]
    by (simp add: MAX_PARTS_def initial_env_def)
  moreover have "map TextElement (take 1000 texts) @ TextElement (texts ! 1000) # [] =
      map TextElement texts"
    by (subst (2) split) simp
  ultimately have "handle_pattern_elements (handle k) ?iso (map TextElement texts) [] ?env =
      Some (Inr (take 1000 texts @ [babel_locale ctx (FluentNone None)]),
            ?env\<lparr>part_count := 1001, errors := [TooManyParts]\<rparr>)"
    by simp
  then show ?thesis
    by (simp add: resolve_def fully_resolve_def fully_resolve_value_def bind_def ret_def
        handle_opt_def handle_pattern_def initial_env_def Let_def)
qed

section \<open>Pattern elements\<close>

text \<open>
  The parts that a run of elements appends do not depend on the parts collected before
  it, and the result of a pattern is the concatenation of what two consecutive runs of
  its elements append.
\<close>

lemma elements_parts:
  "handle_pattern_elements h use_iso elements parts env = Some (Inr ps, env')
   \<Longrightarrow> handle_pattern_elements h use_iso elements (before @ parts) env =
       Some (Inr (before @ ps), env')"
proof (induction elements arbitrary: parts env)
  case Nil
  then show ?case by (simp add: ret_def)
next
  case (Cons element rest)
  show ?case
  proof (cases "part_count env + 1 > MAX_PARTS")
    case True
    with Cons.prems show ?thesis
      by (auto simp: bind_def ret_def append_error_def fully_resolve_value_placeholder Let_def
          split: if_splits)
  next
    case False
    show ?thesis
    proof (cases "text_element_value element")
      case (Some v)
      with False Cons.prems Cons.IH [of "parts @ [v]" "env\<lparr>part_count := part_count env + 1\<rparr>"]
      show ?thesis by simp
    next
      case None
      with False Cons.prems obtain part env2 where
        fr: "fully_resolve h element (env\<lparr>part_count := part_count env + 1\<rparr>) = Some (Inr part, env2)"
        by (auto simp: bind_def split: option.splits sum.splits prod.splits)
      let ?new = "(if use_iso then [FSI] else [])
          @ [if length part > MAX_PART_LENGTH then take MAX_PART_LENGTH part else part]
          @ (if use_iso then [PDI] else [])"
      let ?env3 = "if length part > MAX_PART_LENGTH
          then append_error (PartTooLong (length part)) env2 else env2"
      from fr None False have eq: "handle_pattern_elements h use_iso (element # rest) acc env =
          handle_pattern_elements h use_iso rest (acc @ ?new) ?env3" for acc
        by (simp add: bind_def Let_def)
      from Cons.prems have "handle_pattern_elements h use_iso rest (parts @ ?new) ?env3 =
          Some (Inr ps, env')"
        unfolding eq .
      then have "handle_pattern_elements h use_iso rest (before @ parts @ ?new) ?env3 =
          Some (Inr (before @ ps), env')"
        by (rule Cons.IH)
      then show ?thesis
        unfolding eq by simp
    qed
  qed
qed

lemma pattern_split:
  assumes "pattern \<notin> dirty env"
    and pre: "handle_pattern_elements h
                (use_isolating (env_context env) \<and> length (pre @ rest) > 1) pre []
                (env\<lparr>dirty := insert pattern (dirty env)\<rparr>) = Some (Inr parts1, env1)"
    and "part_count env1 \<le> MAX_PARTS"
    and rest: "handle_pattern_elements h
                (use_isolating (env_context env) \<and> length (pre @ rest) > 1) rest [] env1 =
               Some (Inr parts2, env2)"
  shows "handle_pattern h pattern (pre @ rest) env =
           Some (Inr (PyStr (concat parts1 @ concat parts2)), env2\<lparr>dirty := dirty env2 - {pattern}\<rparr>)"
proof -
  let ?iso = "use_isolating (env_context env) \<and> length (pre @ rest) > 1"
  from elements_parts [OF rest, of parts1]
  have "handle_pattern_elements h ?iso rest parts1 env1 = Some (Inr (parts1 @ parts2), env2)"
    by simp
  with elements_append [OF pre assms(3), of rest]
  have "handle_pattern_elements h ?iso (pre @ rest) [] (env\<lparr>dirty := insert pattern (dirty env)\<rparr>) =
          Some (Inr (parts1 @ parts2), env2)"
    by simp
  with assms(1) show ?thesis
    by (simp add: handle_pattern_def Let_def bind_def ret_def)
qed


lemma resolve_texts:
  assumes "length texts \<le> 1000"
  shows "resolve (Suc (Suc k)) ctx (Message (Some (Pattern p (map TextElement texts)))) arg_map =
           Some (Inr (concat texts, []))"
proof -
  let ?env = "(initial_env ctx arg_map)\<lparr>dirty := {p}\<rparr>"
  let ?iso = "use_isolating ctx \<and> 1 < length (map TextElement texts)"
  have "handle_pattern_elements (handle k) ?iso (map TextElement texts) [] ?env =
      Some (Inr texts, ?env\<lparr>part_count := int (length texts)\<rparr>)"
    using text_elements_run [of ?env texts "handle k" ?iso "[]"] assms
    by (simp add: initial_env_def MAX_PARTS_def)
  then show ?thesis
    by (simp add: resolve_def fully_resolve_def fully_resolve_value_def bind_def ret_def
        handle_opt_def handle_pattern_def initial_env_def Let_def)
qed

text \<open>
  C10 (as the claim states it, refuted). In a message of 1001 text elements the last
  text is reached with the counter at the ceiling: it is not appended, the placeholder is.
\<close>

theorem text_element_replaced_at_ceiling:
  "resolve (Suc (Suc 0)) (example_bundle Map.empty False)
     (Message (Some (Pattern 1 (map TextElement (replicate 1000 (ustr ''a'') @ [ustr ''b''])))))
     Map.empty =
   Some (Inr (concat (replicate 1000 (ustr ''a'')) @ ustr ''???'', [TooManyParts]))"
  using resolve_text_elements
    [of "replicate 1000 (ustr ''a'') @ [ustr ''b'']" 0 "example_bundle Map.empty False" 1 Map.empty]
  by (simp add: example_bundle_def)


text \<open>
  C10 (amended). A text element of a pattern that is reached with the part counter under the
  ceiling is appended as it is, whatever its length: the result of the pattern is the
  concatenation of the parts of the elements before it, the text, and the parts of the
  elements after it, with no truncation and no isolation marks even when isolation is on,
  and the elements after it start from the environment the elements before it left, with
  the counter one higher and no diagnostic added. A text element that is reached with the
  counter at the ceiling does not appear in the output: the placeholder takes its place
  and the loop ends. A message of at most 1000 text elements resolves to the
  concatenation of the texts, without diagnostics.
\<close>

theorem text_element_verbatim:
  assumes "pattern \<notin> dirty env"
    and "handle_pattern_elements (handle n)
           (use_isolating (env_context env) \<and> length (pre @ TextElement v # post) > 1) pre []
           (env\<lparr>dirty := insert pattern (dirty env)\<rparr>) = Some (Inr parts1, env1)"
  shows "(part_count env1 < MAX_PARTS
          \<and> handle_pattern_elements (handle n)
               (use_isolating (env_context env) \<and> length (pre @ TextElement v # post) > 1) post []
               (env1\<lparr>part_count := part_count env1 + 1\<rparr>) = Some (Inr parts2, env2)
          \<longrightarrow> handle (Suc n) (Pattern pattern (pre @ TextElement v # post)) env =
                Some (Inr (PyStr (concat parts1 @ v @ concat parts2)),
                      env2\<lparr>dirty := dirty env2 - {pattern}\<rparr>))
         \<and> (part_count env1 = MAX_PARTS
          \<longrightarrow> handle (Suc n) (Pattern pattern (pre @ TextElement v # post)) env =
                Some (Inr (PyStr (concat parts1 @ babel_locale (env_context env1) (FluentNone None))),
                      env1\<lparr>part_count := MAX_PARTS + 1, errors := errors env1 @ [TooManyParts],
                           dirty := dirty env1 - {pattern}\<rparr>))
         \<and> (length texts \<le> 1000
          \<longrightarrow> resolve (Suc (Suc k)) ctx (Message (Some (Pattern p (map TextElement texts)))) arg_map =
                Some (Inr (concat texts, [])))"
proof (intro conjI impI)
  let ?iso = "use_isolating (env_context env) \<and> length (pre @ TextElement v # post) > 1"
  assume a: "part_count env1 < MAX_PARTS
          \<and> handle_pattern_elements (handle n) ?iso post []
               (env1\<lparr>part_count := part_count env1 + 1\<rparr>) = Some (Inr parts2, env2)"
  then have "handle_pattern_elements (handle n) ?iso post ([v] @ [])
               (env1\<lparr>part_count := part_count env1 + 1\<rparr>) = Some (Inr ([v] @ parts2), env2)"
    by (intro elements_parts) simp
  with a have "handle_pattern_elements (handle n) ?iso (TextElement v # post) [] env1 =
      Some (Inr ([v] @ parts2), env2)"
    by (simp add: text_element_value_def)
  from pattern_split [OF assms(1) assms(2) _ this] a
  show "handle (Suc n) (Pattern pattern (pre @ TextElement v # post)) env =
          Some (Inr (PyStr (concat parts1 @ v @ concat parts2)),
                env2\<lparr>dirty := dirty env2 - {pattern}\<rparr>)"
    by simp
next
  let ?iso = "use_isolating (env_context env) \<and> length (pre @ TextElement v # post) > 1"
  assume a: "part_count env1 = MAX_PARTS"
  then have "handle_pattern_elements (handle n) ?iso (TextElement v # post) [] env1 =
      Some (Inr ([] @ [babel_locale (env_context env1) (FluentNone None)]),
            env1\<lparr>part_count := MAX_PARTS + 1, errors := errors env1 @ [TooManyParts]\<rparr>)"
    by (rule elements_at_ceiling)
  from pattern_split [OF assms(1) assms(2) _ this] a
  show "handle (Suc n) (Pattern pattern (pre @ TextElement v # post)) env =
          Some (Inr (PyStr (concat parts1 @ babel_locale (env_context env1) (FluentNone None))),
                env1\<lparr>part_count := MAX_PARTS + 1, errors := errors env1 @ [TooManyParts],
                     dirty := dirty env1 - {pattern}\<rparr>)"
    by simp
next
  assume "length texts \<le> 1000"
  then show "resolve (Suc (Suc k)) ctx (Message (Some (Pattern p (map TextElement texts)))) arg_map =
                Some (Inr (concat texts, []))"
    by (rule resolve_texts)
qed


theorem text_element_verbatim_witness:
  "1 \<notin> dirty (initial_env (example_bundle Map.empty True) Map.empty)
   \<and> handle (Suc (Suc 0))
        (Pattern 1 [TextElement (ustr ''a''), TextElement (replicate 3000 65), TextElement (ustr ''b'')])
        (initial_env (example_bundle Map.empty True) Map.empty) =
       Some (Inr (PyStr (ustr ''a'' @ replicate 3000 65 @ ustr ''b'')),
             (initial_env (example_bundle Map.empty True) Map.empty)\<lparr>part_count := 3\<rparr>)
   \<and> handle (Suc (Suc 0))
        (Pattern 1 [TextElement (ustr ''a''), TextElement (replicate 3000 65), TextElement (ustr ''b'')])
        ((initial_env (example_bundle Map.empty True) Map.empty)\<lparr>part_count := 999\<rparr>) =
       Some (Inr (PyStr (ustr ''a'' @ ustr ''???'')),
             (initial_env (example_bundle Map.empty True) Map.empty)
               \<lparr>part_count := 1001, errors := [TooManyParts]\<rparr>)
   \<and> resolve (Suc (Suc 0)) (example_bundle Map.empty True)
        (Message (Some (Pattern 1 (map TextElement [replicate 3000 65, ustr ''b''])))) Map.empty =
       Some (Inr (concat [replicate 3000 65, ustr ''b''], []))"
proof -
  let ?env = "initial_env (example_bundle Map.empty True) Map.empty"
  have 1: "1 \<notin> dirty ?env" by (simp add: initial_env_def)
  have 2: "handle (Suc (Suc 0))
        (Pattern 1 [TextElement (ustr ''a''), TextElement (replicate 3000 65), TextElement (ustr ''b'')])
        ?env =
       Some (Inr (PyStr (ustr ''a'' @ replicate 3000 65 @ ustr ''b'')), ?env\<lparr>part_count := 3\<rparr>)"
    using text_element_verbatim
      [where pattern = 1 and env = ?env and n = "Suc 0" and pre = "[TextElement (ustr ''a'')]"
         and v = "replicate 3000 65" and post = "[TextElement (ustr ''b'')]"
         and ?parts1.0 = "[ustr ''a'']" and ?env1.0 = "?env\<lparr>dirty := {1}, part_count := 1\<rparr>"
         and ?parts2.0 = "[ustr ''b'']" and ?env2.0 = "?env\<lparr>dirty := {1}, part_count := 3\<rparr>"
         and texts = "[]" and k = 0 and ctx = "example_bundle Map.empty True" and p = 1
         and arg_map = Map.empty]
    by (simp add: initial_env_def example_bundle_def text_element_value_def ret_def MAX_PARTS_def)
  have 3: "handle (Suc (Suc 0))
        (Pattern 1 [TextElement (ustr ''a''), TextElement (replicate 3000 65), TextElement (ustr ''b'')])
        (?env\<lparr>part_count := 999\<rparr>) =
       Some (Inr (PyStr (ustr ''a'' @ ustr ''???'')),
             ?env\<lparr>part_count := 1001, errors := [TooManyParts]\<rparr>)"
    using text_element_verbatim
      [where pattern = 1 and env = "?env\<lparr>part_count := 999\<rparr>" and n = "Suc 0"
         and pre = "[TextElement (ustr ''a'')]"
         and v = "replicate 3000 65" and post = "[TextElement (ustr ''b'')]"
         and ?parts1.0 = "[ustr ''a'']" and ?env1.0 = "?env\<lparr>dirty := {1}, part_count := 1000\<rparr>"
         and ?parts2.0 = "[]" and ?env2.0 = "?env"
         and texts = "[]" and k = 0 and ctx = "example_bundle Map.empty True" and p = 1
         and arg_map = Map.empty]
    by (simp add: initial_env_def example_bundle_def text_element_value_def ret_def MAX_PARTS_def)
  have 4: "resolve (Suc (Suc 0)) (example_bundle Map.empty True)
        (Message (Some (Pattern 1 (map TextElement [replicate 3000 65, ustr ''b''])))) Map.empty =
       Some (Inr (concat [replicate 3000 65, ustr ''b''], []))"
    using text_element_verbatim
      [where pattern = 1 and env = ?env and n = "Suc 0" and pre = "[TextElement (ustr ''a'')]"
         and v = "replicate 3000 65" and post = "[TextElement (ustr ''b'')]"
         and ?parts1.0 = "[ustr ''a'']" and ?env1.0 = "?env\<lparr>dirty := {1}, part_count := 1\<rparr>"
         and ?parts2.0 = "[ustr ''b'']" and ?env2.0 = "?env\<lparr>dirty := {1}, part_count := 3\<rparr>"
         and texts = "[replicate 3000 65, ustr ''b'']" and k = 0
         and ctx = "example_bundle Map.empty True" and p = 1 and arg_map = Map.empty]
    by (simp add: initial_env_def example_bundle_def text_element_value_def ret_def MAX_PARTS_def)
  from 1 2 3 4 show ?thesis by blast
qed

text \<open>
  C6. A non-text element of a pattern that is reached under the part ceiling and whose
  resolved string is longer than 2500 characters appends one part-too-long diagnostic,
  and the first 2500 characters of the string (between isolation marks when isolation is
  on) take its place in the result of the pattern, between the parts of the elements
  before it and the parts of the elements after it, which are resolved as they are
  otherwise. In particular a message made of a text, a variable bound to a string of more
  than 2500 characters and another text resolves to the first text, the first 2500
  characters of the string and the second text, with exactly that one diagnostic.
\<close>

theorem part_too_long_truncated:
  assumes "pattern \<notin> dirty env"
    and "handle_pattern_elements (handle n)
           (use_isolating (env_context env) \<and> length (pre @ element # post) > 1) pre []
           (env\<lparr>dirty := insert pattern (dirty env)\<rparr>) = Some (Inr parts1, env1)"
    and "part_count env1 < MAX_PARTS"
    and "text_element_value element = None"
    and "fully_resolve (handle n) element (env1\<lparr>part_count := part_count env1 + 1\<rparr>) =
           Some (Inr part, env2)"
    and "length part > MAX_PART_LENGTH"
    and "handle_pattern_elements (handle n)
           (use_isolating (env_context env) \<and> length (pre @ element # post) > 1) post []
           (env2\<lparr>errors := errors env2 @ [PartTooLong (length part)]\<rparr>) = Some (Inr parts2, env3)"
  shows "handle (Suc n) (Pattern pattern (pre @ element # post)) env =
           Some (Inr (PyStr (concat parts1
                    @ (if use_isolating (env_context env) \<and> length (pre @ element # post) > 1
                       then FSI else [])
                    @ take 2500 part
                    @ (if use_isolating (env_context env) \<and> length (pre @ element # post) > 1
                       then PDI else [])
                    @ concat parts2)),
                 env3\<lparr>dirty := dirty env3 - {pattern}\<rparr>)
         \<and> length (take 2500 part) = 2500
         \<and> (arg_map x = Some (PyStr s) \<and> length s > MAX_PART_LENGTH \<longrightarrow>
              resolve (Suc (Suc (Suc (Suc k)))) ctx
                (Message (Some (Pattern p
                   [TextElement a, Placeable (VariableReference x), TextElement b]))) arg_map =
              Some (Inr (a @ (if use_isolating ctx then FSI else []) @ take 2500 s
                           @ (if use_isolating ctx then PDI else []) @ b,
                         [PartTooLong (length s)])))"
proof (intro conjI impI)
  define iso where "iso = (use_isolating (env_context env) \<and> length (pre @ element # post) > 1)"
  define new where "new = (if iso then [FSI] else []) @ [take 2500 part] @ (if iso then [PDI] else [])"
  define env2' where "env2' = env2\<lparr>errors := errors env2 @ [PartTooLong (length part)]\<rparr>"
  have step: "handle_pattern_elements (handle n) iso (element # post) [] env1 =
      handle_pattern_elements (handle n) iso post new env2'"
    using assms(3-6)
    by (cases iso)
      (simp_all add: bind_def append_error_def MAX_PART_LENGTH_def Let_def new_def env2'_def)
  from assms(7) have "handle_pattern_elements (handle n) iso post [] env2' = Some (Inr parts2, env3)"
    by (simp add: iso_def env2'_def)
  then have "handle_pattern_elements (handle n) iso post (new @ []) env2' =
      Some (Inr (new @ parts2), env3)"
    by (rule elements_parts)
  with step have "handle_pattern_elements (handle n) iso (element # post) [] env1 =
      Some (Inr (new @ parts2), env3)"
    by simp
  then have rest: "handle_pattern_elements (handle n)
      (use_isolating (env_context env) \<and> length (pre @ element # post) > 1) (element # post) [] env1 =
      Some (Inr (new @ parts2), env3)"
    unfolding iso_def .
  have "handle_pattern (handle n) pattern (pre @ element # post) env =
      Some (Inr (PyStr (concat parts1 @ concat (new @ parts2))),
            env3\<lparr>dirty := dirty env3 - {pattern}\<rparr>)"
    using assms(1) assms(2) _ rest
  proof (rule pattern_split)
    from assms(3) show "part_count env1 \<le> MAX_PARTS" by simp
  qed
  then have "handle (Suc n) (Pattern pattern (pre @ element # post)) env =
           Some (Inr (PyStr (concat parts1 @ (if iso then FSI else []) @ take 2500 part
                    @ (if iso then PDI else []) @ concat parts2)),
                 env3\<lparr>dirty := dirty env3 - {pattern}\<rparr>)"
    by (cases iso) (simp_all add: new_def)
  then show "handle (Suc n) (Pattern pattern (pre @ element # post)) env =
           Some (Inr (PyStr (concat parts1
                    @ (if use_isolating (env_context env) \<and> length (pre @ element # post) > 1
                       then FSI else [])
                    @ take 2500 part
                    @ (if use_isolating (env_context env) \<and> length (pre @ element # post) > 1
                       then PDI else [])
                    @ concat parts2)),
                 env3\<lparr>dirty := dirty env3 - {pattern}\<rparr>)"
    unfolding iso_def .
next
  from assms(6) show "length (take 2500 part) = 2500"
    by (simp add: MAX_PART_LENGTH_def)
next
  assume "arg_map x = Some (PyStr s) \<and> length s > MAX_PART_LENGTH"
  then show "resolve (Suc (Suc (Suc (Suc k)))) ctx
                (Message (Some (Pattern p
                   [TextElement a, Placeable (VariableReference x), TextElement b]))) arg_map =
              Some (Inr (a @ (if use_isolating ctx then FSI else []) @ take 2500 s
                           @ (if use_isolating ctx then PDI else []) @ b,
                         [PartTooLong (length s)]))"
    by (simp add: resolve_def initial_env_def fully_resolve_def fully_resolve_value_def
        handle_opt_def handle_pattern_def text_element_value_def handle_variable_reference_def
        supported_external_def bind_def ret_def append_error_def Let_def
        MAX_PARTS_def MAX_PART_LENGTH_def)
qed

theorem part_too_long_truncated_witness:
  "handle (Suc (Suc (Suc 0)))
     (Pattern 1 [TextElement (ustr ''a''), Placeable (VariableReference (ustr ''x'')),
                 TextElement (ustr ''b'')])
     (initial_env (example_bundle Map.empty True) [ustr ''x'' \<mapsto> PyStr (replicate 3000 65)]) =
   Some (Inr (PyStr (ustr ''a'' @ FSI @ replicate 2500 65 @ PDI @ ustr ''b'')),
     (initial_env (example_bundle Map.empty True) [ustr ''x'' \<mapsto> PyStr (replicate 3000 65)])
        \<lparr>part_count := 3, errors := [PartTooLong 3000]\<rparr>)
   \<and> resolve (Suc (Suc (Suc (Suc 0)))) (example_bundle Map.empty False)
        (Message (Some (Pattern 1
           [TextElement (ustr ''a''), Placeable (VariableReference (ustr ''x'')),
            TextElement (ustr ''b'')])))
        [ustr ''x'' \<mapsto> PyStr (replicate 3000 65)] =
       Some (Inr (ustr ''a'' @ replicate 2500 65 @ ustr ''b'', [PartTooLong 3000]))"
proof -
  let ?env = "initial_env (example_bundle Map.empty True) [ustr ''x'' \<mapsto> PyStr (replicate 3000 65)]"
  note inst = part_too_long_truncated
      [where pattern = 1 and env = ?env and n = "Suc (Suc 0)" and pre = "[TextElement (ustr ''a'')]"
         and element = "Placeable (VariableReference (ustr ''x''))"
         and post = "[TextElement (ustr ''b'')]"
         and ?parts1.0 = "[ustr ''a'']" and ?env1.0 = "?env\<lparr>dirty := {1}, part_count := 1\<rparr>"
         and part = "replicate 3000 65" and ?env2.0 = "?env\<lparr>dirty := {1}, part_count := 2\<rparr>"
         and ?parts2.0 = "[ustr ''b'']"
         and ?env3.0 = "?env\<lparr>dirty := {1}, part_count := 3, errors := [PartTooLong 3000]\<rparr>"
         and arg_map = "[ustr ''x'' \<mapsto> PyStr (replicate 3000 65)]" and x = "ustr ''x''"
         and s = "replicate 3000 65" and k = 0 and ctx = "example_bundle Map.empty False" and p = 1
         and a = "ustr ''a''" and b = "ustr ''b''"]
  have pre: "1 \<notin> dirty ?env
    \<and> handle_pattern_elements (handle (Suc (Suc 0))) True [TextElement (ustr ''a'')] []
           (?env\<lparr>dirty := {1}\<rparr>) = Some (Inr [ustr ''a''], ?env\<lparr>dirty := {1}, part_count := 1\<rparr>)
    \<and> text_element_value (Placeable (VariableReference (ustr ''x''))) = None
    \<and> fully_resolve (handle (Suc (Suc 0))) (Placeable (VariableReference (ustr ''x'')))
          (?env\<lparr>dirty := {1}, part_count := 2\<rparr>) =
        Some (Inr (replicate 3000 65), ?env\<lparr>dirty := {1}, part_count := 2\<rparr>)
    \<and> handle_pattern_elements (handle (Suc (Suc 0))) True [TextElement (ustr ''b'')] []
           (?env\<lparr>dirty := {1}, part_count := 2, errors := [PartTooLong 3000]\<rparr>) =
        Some (Inr [ustr ''b''], ?env\<lparr>dirty := {1}, part_count := 3, errors := [PartTooLong 3000]\<rparr>)"
    by (simp add: initial_env_def example_bundle_def text_element_value_def ret_def MAX_PARTS_def
        fully_resolve_def fully_resolve_value_def handle_variable_reference_def bind_def
        supported_external_def)
  from inst pre show ?thesis
    by (simp add: initial_env_def example_bundle_def MAX_PARTS_def MAX_PART_LENGTH_def)
qed

section \<open>Selector matching and the order of variants\<close>

text \<open>
  The loop of a select expression passes over the variants whose keys do not match, keeping
  the last default variant it has seen.
\<close>

lemma select_expression_loop_skip:
  assumes "\<forall>variant \<in> set pre.
             (\<exists>name. variant_key variant = Identifier name \<and> \<not> match key (PyStr name) env)
             \<or> (\<exists>v. variant_key variant = NumberLiteral v \<and> \<not> match key v env)"
  shows "select_expression_loop (handle (Suc n)) (pre @ rest) key dflt env =
           select_expression_loop (handle (Suc n)) rest key
             (case filter variant_default pre of [] \<Rightarrow> dflt | ds \<Rightarrow> Some (last ds)) env"
  using assms
proof (induction pre arbitrary: dflt)
  case Nil
  show ?case by simp
next
  case (Cons variant pre)
  let ?dflt1 = "if variant_default variant then Some variant else dflt"
  from Cons.prems have here:
    "(\<exists>name. variant_key variant = Identifier name \<and> \<not> match key (PyStr name) env)
     \<or> (\<exists>v. variant_key variant = NumberLiteral v \<and> \<not> match key v env)"
    by simp
  then have "select_expression_loop (handle (Suc n)) ((variant # pre) @ rest) key dflt env =
      select_expression_loop (handle (Suc n)) (pre @ rest) key ?dflt1 env"
    by (auto simp: bind_def ret_def Let_def)
  also have "\<dots> = select_expression_loop (handle (Suc n)) rest key
             (case filter variant_default pre of [] \<Rightarrow> ?dflt1 | ds \<Rightarrow> Some (last ds)) env"
    using Cons.prems by (intro Cons.IH) simp
  also have "(case filter variant_default pre of [] \<Rightarrow> ?dflt1 | ds \<Rightarrow> Some (last ds)) =
      (case filter variant_default (variant # pre) of [] \<Rightarrow> dflt | ds \<Rightarrow> Some (last ds))"
    by (simp split: list.splits)
  finally show ?case .
qed

lemma select_first_match:
  assumes sel: "handle (Suc n) selector env = Some (Inr key, env1)"
    and pre: "\<forall>variant \<in> set pre.
             (\<exists>name. variant_key variant = Identifier name \<and> \<not> match key (PyStr name) env1)
             \<or> (\<exists>v. variant_key variant = NumberLiteral v \<and> \<not> match key v env1)"
    and k: "(\<exists>name. k = Identifier name \<and> match key (PyStr name) env1)
             \<or> (\<exists>v. k = NumberLiteral v \<and> match key v env1)"
  shows "handle (Suc (Suc n)) (SelectExpression selector (pre @ Variant k val d # post)) env =
           handle (Suc n) val env1"
proof -
  from k have "select_expression_loop (handle (Suc n)) (Variant k val d # post) key dflt env1 =
      Some (Inr (Some (Variant k val d), if d then Some (Variant k val d) else dflt), env1)" for dflt
    by (auto simp: bind_def ret_def Let_def)
  with select_expression_loop_skip [OF pre, of n "Variant k val d # post" None]
  have "select_from_select_expression (handle (Suc n)) (pre @ Variant k val d # post) key env1 =
      handle (Suc n) val env1"
    by (simp add: select_from_select_expression_def bind_def)
  with sel show ?thesis
    by (simp add: handle_select_expression_def bind_def)
qed

lemma select_no_match:
  assumes sel: "handle (Suc n) selector env = Some (Inr key, env1)"
    and vs: "\<forall>variant \<in> set variants.
             (\<exists>name. variant_key variant = Identifier name \<and> \<not> match key (PyStr name) env1)
             \<or> (\<exists>v. variant_key variant = NumberLiteral v \<and> \<not> match key v env1)"
  shows "handle (Suc (Suc n)) (SelectExpression selector variants) env =
           (case filter variant_default variants of
              [] \<Rightarrow> Some (Inr (FluentNone None), env1)
            | ds \<Rightarrow> handle (Suc n) (variant_value (last ds)) env1)"
proof -
  from select_expression_loop_skip [OF vs, of n "[]" None]
  have "select_from_select_expression (handle (Suc n)) variants key env1 =
      (case filter variant_default variants of
              [] \<Rightarrow> Some (Inr (FluentNone None), env1)
            | ds \<Rightarrow> handle (Suc n) (variant_value (last ds)) env1)"
    by (simp add: select_from_select_expression_def bind_def ret_def split: list.splits)
  with sel show ?thesis
    by (simp add: handle_select_expression_def bind_def)
qed


text \<open>
  C7 (as the claim states it, refuted). With selector \<open>5\<close>, an \<open>other\<close> default
  declared before the variant with the numeric key \<open>5\<close>, and \<open>other\<close> the plural
  category of \<open>5\<close>, resolution picks the default variant: the message resolves to
  \<open>many\<close>, not to \<open>five\<close>.
\<close>

theorem default_declared_first:
  "resolve 6 (example_bundle Map.empty False)
     (Message (Some (Pattern 1
        [Placeable (SelectExpression (NumberLiteral (PyInt 5))
           [Variant (Identifier (ustr ''other'')) (Pattern 2 [TextElement (ustr ''many'')]) True,
            Variant (NumberLiteral (PyInt 5)) (Pattern 3 [TextElement (ustr ''five'')]) False])])))
     Map.empty =
   Some (Inr (ustr ''many'', []))"
  by (simp add: eval_defs)

text \<open>
  C7 (amended). \<^verbatim>\<open>match\<close> is false when either side is \<^verbatim>\<open>None\<close> or a placeholder; for a
  numeric first and a non-numeric second operand it compares the plural category of the
  first with the second; when only the second is numeric it is \<^verbatim>\<open>match\<close> with the
  operands swapped; otherwise it is equality. A select expression resolves the first
  variant, in the order of declaration, whose key matches the value of the selector, and
  when no key matches the last variant marked as default (a placeholder when there is
  none). So with selector \<open>5\<close> the variant with the numeric key \<open>5\<close> is resolved
  when no variant declared before it matches, whatever follows it; and a variant whose key
  is the plural category of \<open>5\<close> is resolved when it is declared first, whatever
  follows it.
\<close>

theorem match_cases:
  "((\<not> usable val1 \<or> \<not> usable val2) \<longrightarrow> \<not> match val1 val2 env)
   \<and> (usable val1 \<and> usable val2 \<and> is_number val1 \<and> \<not> is_number val2 \<longrightarrow>
        match val1 val2 env = py_eq (PyStr (plural_form (env_context env) val1)) val2)
   \<and> (usable val1 \<and> usable val2 \<and> \<not> is_number val1 \<and> is_number val2 \<longrightarrow>
        match val1 val2 env = match val2 val1 env)
   \<and> (usable val1 \<and> usable val2 \<and> is_number val1 = is_number val2 \<longrightarrow>
        match val1 val2 env = py_eq val1 val2)
   \<and> (handle (Suc n) selector env = Some (Inr key, env1)
        \<and> (\<forall>variant \<in> set pre.
              (\<exists>name. variant_key variant = Identifier name \<and> \<not> match key (PyStr name) env1)
              \<or> (\<exists>v. variant_key variant = NumberLiteral v \<and> \<not> match key v env1))
        \<and> ((\<exists>name. k = Identifier name \<and> match key (PyStr name) env1)
             \<or> (\<exists>v. k = NumberLiteral v \<and> match key v env1))
        \<longrightarrow> handle (Suc (Suc n)) (SelectExpression selector (pre @ Variant k val d # post)) env =
              handle (Suc n) val env1)
   \<and> (handle (Suc n) selector env = Some (Inr key, env1)
        \<and> (\<forall>variant \<in> set variants.
              (\<exists>name. variant_key variant = Identifier name \<and> \<not> match key (PyStr name) env1)
              \<or> (\<exists>v. variant_key variant = NumberLiteral v \<and> \<not> match key v env1))
        \<longrightarrow> handle (Suc (Suc n)) (SelectExpression selector variants) env =
              (case filter variant_default variants of
                 [] \<Rightarrow> Some (Inr (FluentNone None), env1)
               | ds \<Rightarrow> handle (Suc n) (variant_value (last ds)) env1))
   \<and> ((\<forall>variant \<in> set pre.
              (\<exists>name. variant_key variant = Identifier name
                 \<and> plural_form (env_context env) (PyInt 5) \<noteq> name)
              \<or> (\<exists>v. variant_key variant = NumberLiteral v \<and> \<not> match (PyInt 5) v env))
        \<longrightarrow> handle (Suc (Suc n))
               (SelectExpression (NumberLiteral (PyInt 5))
                  (pre @ Variant (NumberLiteral (PyInt 5)) exact d # post)) env =
              handle (Suc n) exact env)
   \<and> (plural_form (env_context env) (PyInt 5) = category
        \<longrightarrow> handle (Suc (Suc n))
               (SelectExpression (NumberLiteral (PyInt 5))
                  (Variant (Identifier category) other d # post)) env =
              handle (Suc n) other env)"
proof -
  have m: "match (PyInt 5) (PyStr name) env = (plural_form (env_context env) (PyInt 5) = name)" for name
    by (simp add: match.simps [of "PyInt 5"] is_number_def is_FluentNone_def py_eq_def numeric_def)
  have five: "match (PyInt 5) (PyInt 5) env"
    by (simp add: match.simps [of "PyInt 5"] is_number_def is_FluentNone_def py_eq_def numeric_def)
  have sel: "handle (Suc n) (NumberLiteral (PyInt 5)) env = Some (Inr (PyInt 5), env)"
    by (simp add: ret_def)
  have 7: "handle (Suc (Suc n))
               (SelectExpression (NumberLiteral (PyInt 5))
                  (pre @ Variant (NumberLiteral (PyInt 5)) exact d # post)) env =
              handle (Suc n) exact env"
    if "\<forall>variant \<in> set pre.
              (\<exists>name. variant_key variant = Identifier name
                 \<and> plural_form (env_context env) (PyInt 5) \<noteq> name)
              \<or> (\<exists>v. variant_key variant = NumberLiteral v \<and> \<not> match (PyInt 5) v env)"
    using sel
  proof (rule select_first_match)
    from that show "\<forall>variant \<in> set pre.
             (\<exists>name. variant_key variant = Identifier name \<and> \<not> match (PyInt 5) (PyStr name) env)
             \<or> (\<exists>v. variant_key variant = NumberLiteral v \<and> \<not> match (PyInt 5) v env)"
      by (simp add: m)
    from five show "(\<exists>name. NumberLiteral (PyInt 5) = Identifier name \<and> match (PyInt 5) (PyStr name) env)
             \<or> (\<exists>v. NumberLiteral (PyInt 5) = NumberLiteral v \<and> match (PyInt 5) v env)"
      by simp
  qed
  have 8: "handle (Suc (Suc n))
               (SelectExpression (NumberLiteral (PyInt 5))
                  (Variant (Identifier category) other d # post)) env =
              handle (Suc n) other env"
    if "plural_form (env_context env) (PyInt 5) = category"
    using select_first_match [OF sel, where pre = "[]" and k = "Identifier category"
        and val = other and d = d and post = post] that
    by (simp add: m)
  show ?thesis
    using select_first_match [where n = n and selector = selector and env = env and key = key
        and ?env1.0 = env1 and pre = pre and k = k and val = val and d = d and post = post]
      select_no_match [where n = n and selector = selector and env = env and key = key
        and ?env1.0 = env1 and variants = variants] 7 8
    by (simp add: usable_def match.simps [of val1 val2] is_number_def is_FluentNone_def)
qed


theorem match_cases_witness:
  "\<not> match (PyInt 5) (FluentNone None) env0
   \<and> match (PyInt 5) (PyStr (ustr ''other'')) env0
   \<and> match (PyStr (ustr ''other'')) (PyInt 5) env0
   \<and> match (PyInt 5) (PyFloat (Finite 5)) env0
   \<and> \<not> match (PyStr (ustr ''one'')) (PyStr (ustr ''other'')) env0
   \<and> handle (Suc (Suc 0))
        (SelectExpression (NumberLiteral (PyInt 5))
           ([Variant (Identifier (ustr ''one'')) (Pattern 2 [TextElement (ustr ''single'')]) False]
            @ Variant (NumberLiteral (PyInt 5)) (Pattern 3 [TextElement (ustr ''five'')]) False
            # [Variant (Identifier (ustr ''other'')) (Pattern 4 [TextElement (ustr ''many'')]) True]))
        env0 =
       Some (Inr (PyStr (ustr ''five'')), env0\<lparr>part_count := 1\<rparr>)
   \<and> handle (Suc (Suc 0))
        (SelectExpression (StringLiteral (ustr ''x''))
           [Variant (Identifier (ustr ''one'')) (Pattern 2 [TextElement (ustr ''single'')]) False,
            Variant (Identifier (ustr ''other'')) (Pattern 4 [TextElement (ustr ''many'')]) True])
        env0 =
       Some (Inr (PyStr (ustr ''many'')), env0\<lparr>part_count := 1\<rparr>)
   \<and> handle (Suc (Suc 0))
        (SelectExpression (NumberLiteral (PyInt 5))
           (Variant (Identifier (ustr ''other'')) (Pattern 4 [TextElement (ustr ''many'')]) True
            # [Variant (NumberLiteral (PyInt 5)) (Pattern 3 [TextElement (ustr ''five'')]) False]))
        env0 =
       Some (Inr (PyStr (ustr ''many'')), env0\<lparr>part_count := 1\<rparr>)"
proof -
  let ?one = "Variant (Identifier (ustr ''one'')) (Pattern 2 [TextElement (ustr ''single'')]) False"
  let ?other = "Variant (Identifier (ustr ''other'')) (Pattern 4 [TextElement (ustr ''many'')]) True"
  have 1: "\<not> match (PyInt 5) (FluentNone None) env0
   \<and> match (PyInt 5) (PyStr (ustr ''other'')) env0
   \<and> match (PyStr (ustr ''other'')) (PyInt 5) env0
   \<and> match (PyInt 5) (PyFloat (Finite 5)) env0
   \<and> \<not> match (PyStr (ustr ''one'')) (PyStr (ustr ''other'')) env0"
    using match_cases [where ?val1.0 = "PyInt 5" and ?val2.0 = "FluentNone None" and env = env0]
      match_cases [where ?val1.0 = "PyInt 5" and ?val2.0 = "PyStr (ustr ''other'')" and env = env0]
      match_cases [where ?val1.0 = "PyStr (ustr ''other'')" and ?val2.0 = "PyInt 5" and env = env0]
      match_cases [where ?val1.0 = "PyInt 5" and ?val2.0 = "PyFloat (Finite 5)" and env = env0]
      match_cases [where ?val1.0 = "PyStr (ustr ''one'')" and ?val2.0 = "PyStr (ustr ''other'')"
        and env = env0]
    by (simp add: usable_def is_number_def is_FluentNone_def py_eq_def numeric_def env0_def
        initial_env_def example_bundle_def example_plural_form_def ustr_def)
  let ?five = "Variant (NumberLiteral (PyInt 5)) (Pattern 3 [TextElement (ustr ''five'')]) False"
  have 2: "handle (Suc (Suc 0))
        (SelectExpression (NumberLiteral (PyInt 5))
           ([?one] @ Variant (NumberLiteral (PyInt 5)) (Pattern 3 [TextElement (ustr ''five'')]) False
            # [?other])) env0 =
       Some (Inr (PyStr (ustr ''five'')), env0\<lparr>part_count := 1\<rparr>)"
    using match_cases [where env = env0 and pre = "[?one]" and n = 0
        and exact = "Pattern 3 [TextElement (ustr ''five'')]" and d = False and post = "[?other]"
        and ?val1.0 = PyNone and ?val2.0 = PyNone and selector = "NumberLiteral (PyInt 5)"
        and key = "PyInt 5" and ?env1.0 = env0 and k = "NumberLiteral (PyInt 5)"
        and val = "Pattern 3 [TextElement (ustr ''five'')]" and variants = "[]"
        and category = "[]" and other = "TextElement []"]
    by (simp add: env0_def eval_defs)
  have 3: "handle (Suc (Suc 0))
        (SelectExpression (StringLiteral (ustr ''x'')) [?one, ?other]) env0 =
       Some (Inr (PyStr (ustr ''many'')), env0\<lparr>part_count := 1\<rparr>)"
    using match_cases [where env = env0 and pre = "[]" and n = 0
        and exact = "Pattern 3 [TextElement (ustr ''five'')]" and d = False and post = "[]"
        and ?val1.0 = PyNone and ?val2.0 = PyNone and selector = "StringLiteral (ustr ''x'')"
        and key = "PyStr (ustr ''x'')" and ?env1.0 = env0 and k = "Identifier (ustr ''x'')"
        and val = "Pattern 3 [TextElement (ustr ''five'')]" and variants = "[?one, ?other]"
        and category = "[]" and other = "TextElement []"]
    by (simp add: env0_def eval_defs)
  have 4: "handle (Suc (Suc 0))
        (SelectExpression (NumberLiteral (PyInt 5))
           (?other # [Variant (NumberLiteral (PyInt 5)) (Pattern 3 [TextElement (ustr ''five'')]) False]))
        env0 =
       Some (Inr (PyStr (ustr ''many'')), env0\<lparr>part_count := 1\<rparr>)"
    using match_cases [where env = env0 and pre = "[]" and n = 0
        and exact = "Pattern 3 [TextElement (ustr ''five'')]" and d = True and post = "[?five]"
        and ?val1.0 = PyNone and ?val2.0 = PyNone and selector = "NumberLiteral (PyInt 5)"
        and key = "PyInt 5" and ?env1.0 = env0 and k = "NumberLiteral (PyInt 5)"
        and val = "Pattern 3 [TextElement (ustr ''five'')]" and variants = "[]"
        and category = "ustr ''other''" and other = "Pattern 4 [TextElement (ustr ''many'')]"]
    by (simp add: env0_def eval_defs)
  from 1 2 3 4 show ?thesis by blast
qed

section \<open>Variable references\<close>

text \<open>
  A reference to a term handles the term with empty bindings and the flag
  \<open>error_for_missing_arg\<close> off, and puts the bindings of the caller back when the
  term has returned; a call of a term does the same with the named arguments as bindings,
  after the arguments have been evaluated under the bindings of the caller.
\<close>

lemma term_reference_scope:
  assumes "messages_and_terms (env_context env) t = Some nd"
  shows "handle (Suc n) (Ref (TermReference t)) env =
           (case handle n nd
                   (env\<lparr>current := (current env)\<lparr>args := Map.empty,
                                                   error_for_missing_arg := False\<rparr>\<rparr>) of
              None \<Rightarrow> None
            | Some (Inl e, env') \<Rightarrow> Some (Inl e, env')
            | Some (Inr v, env') \<Rightarrow> Some (Inr v, env'\<lparr>current := current env\<rparr>))"
  using assms
  by (simp add: handle_term_reference_def modified_for_term_reference_def modified_def
      lookup_reference_def bind_def ret_def handle_obj_def Let_def
      split: option.splits sum.splits prod.splits)

lemma term_call_scope:
  assumes "handle_named (handle n) named Map.empty env = Some (Inr kwargs, env1)"
    and "messages_and_terms (env_context env1) t = Some nd"
  shows "handle (Suc n) (CallExpression (CalleeReference (TermReference t)) [] named) env =
           (case handle n nd
                   (env1\<lparr>current := (current env1)\<lparr>args := kwargs,
                                                     error_for_missing_arg := False\<rparr>\<rparr>) of
              None \<Rightarrow> None
            | Some (Inl e, env') \<Rightarrow> Some (Inl e, env')
            | Some (Inr v, env') \<Rightarrow> Some (Inr v, env'\<lparr>current := current env1\<rparr>))"
  using assms
  by (simp add: handle_call_expression_def call_term_def modified_for_term_reference_def
      modified_def lookup_reference_def bind_def ret_def handle_obj_def Let_def
      split: option.splits sum.splits prod.splits)

lemma resolve_missing_variable:
  assumes "arg_map x = None"
    and "length (babel_locale ctx (FluentNone (Some x))) \<le> MAX_PART_LENGTH"
  shows "resolve (Suc (Suc (Suc (Suc k)))) ctx
           (Message (Some (Pattern p [Placeable (VariableReference x)]))) arg_map =
         Some (Inr (babel_locale ctx (FluentNone (Some x)), [UnknownExternal x]))"
  using assms
  by (simp add: resolve_def initial_env_def fully_resolve_def
        fully_resolve_value_def handle_value_def bind_def ret_def append_error_def Let_def
        handle_opt_def handle_pattern_def text_element_value_def
        handle_variable_reference_def MAX_PARTS_def MAX_PART_LENGTH_def)

lemma resolve_missing_variable_in_term:
  assumes "messages_and_terms ctx t = Some (Term (Some (Pattern q [Placeable (VariableReference x)])))"
    and "q \<noteq> p"
    and "length (babel_locale ctx (FluentNone (Some x))) \<le> MAX_PART_LENGTH"
  shows "resolve (Suc (Suc (Suc (Suc (Suc (Suc (Suc (Suc k)))))))) ctx
           (Message (Some (Pattern p [Placeable (Ref (TermReference t))]))) arg_map =
         Some (Inr (babel_locale ctx (FluentNone (Some x)), []))"
  using assms
  by (simp add: resolve_def initial_env_def fully_resolve_def
        fully_resolve_value_def handle_value_def bind_def ret_def append_error_def Let_def
        handle_opt_def handle_obj_def handle_pattern_def text_element_value_def
        handle_term_reference_def modified_for_term_reference_def modified_def
        lookup_reference_def
        handle_variable_reference_def MAX_PARTS_def MAX_PART_LENGTH_def)

lemma resolve_missing_variable_in_called_term:
  assumes "messages_and_terms ctx t = Some (Term (Some (Pattern q [Placeable (VariableReference x)])))"
    and "q \<noteq> p" and "x \<noteq> y" and "arg_map z = None"
    and "length (babel_locale ctx (FluentNone (Some x))) \<le> MAX_PART_LENGTH"
  shows "resolve (Suc (Suc (Suc (Suc (Suc (Suc (Suc (Suc k)))))))) ctx
           (Message (Some (Pattern p
              [Placeable (CallExpression (CalleeReference (TermReference t)) []
                            [(y, VariableReference z)])]))) arg_map =
         Some (Inr (babel_locale ctx (FluentNone (Some x)), [UnknownExternal z]))"
  using assms
  by (simp add: resolve_def initial_env_def fully_resolve_def
        fully_resolve_value_def handle_value_def bind_def ret_def append_error_def Let_def
        handle_opt_def handle_obj_def handle_pattern_def text_element_value_def
        handle_call_expression_def call_term_def
        modified_for_term_reference_def modified_def lookup_reference_def
        handle_variable_reference_def MAX_PARTS_def MAX_PART_LENGTH_def)


text \<open>
  C9. A variable reference whose name is absent from the current bindings returns a
  placeholder carrying the name, and appends an unknown-external diagnostic exactly when
  \<open>error_for_missing_arg\<close> is set. The flag is set in the environment that
  \<^verbatim>\<open>resolve\<close> creates, so a message that refers to an unbound variable resolves to
  the text of the placeholder with one unknown-external diagnostic. While a term is
  resolved, through a reference or through a call with named arguments, the flag is off
  and the bindings are empty or the named arguments of the call: a variable of the term
  that is not among them resolves to the text of the placeholder without a diagnostic.
  The argument expressions of the call themselves are evaluated before that, under the
  bindings and the flag of the caller.
\<close>

theorem handle_variable_reference_missing:
  assumes "args (current env) name = None"
  shows "handle (Suc n) (VariableReference name) env =
           Some (Inr (FluentNone (Some name)),
                 if error_for_missing_arg (current env)
                 then env\<lparr>errors := errors env @ [UnknownExternal name]\<rparr> else env)
         \<and> error_for_missing_arg (current (initial_env ctx arg_map))
         \<and> (messages_and_terms (env_context env) t = Some nd \<longrightarrow>
             handle (Suc n) (Ref (TermReference t)) env =
               (case handle n nd
                       (env\<lparr>current := (current env)\<lparr>args := Map.empty,
                                                       error_for_missing_arg := False\<rparr>\<rparr>) of
                  None \<Rightarrow> None
                | Some (Inl e, env') \<Rightarrow> Some (Inl e, env')
                | Some (Inr v, env') \<Rightarrow> Some (Inr v, env'\<lparr>current := current env\<rparr>)))
         \<and> (handle_named (handle n) named Map.empty env = Some (Inr kwargs, env1)
              \<and> messages_and_terms (env_context env1) t = Some nd \<longrightarrow>
             handle (Suc n) (CallExpression (CalleeReference (TermReference t)) [] named) env =
               (case handle n nd
                       (env1\<lparr>current := (current env1)\<lparr>args := kwargs,
                                                         error_for_missing_arg := False\<rparr>\<rparr>) of
                  None \<Rightarrow> None
                | Some (Inl e, env') \<Rightarrow> Some (Inl e, env')
                | Some (Inr v, env') \<Rightarrow> Some (Inr v, env'\<lparr>current := current env1\<rparr>)))
         \<and> (arg_map name = None
              \<and> length (babel_locale ctx (FluentNone (Some name))) \<le> MAX_PART_LENGTH \<longrightarrow>
             resolve (Suc (Suc (Suc (Suc k)))) ctx
               (Message (Some (Pattern p [Placeable (VariableReference name)]))) arg_map =
             Some (Inr (babel_locale ctx (FluentNone (Some name)), [UnknownExternal name])))
         \<and> (messages_and_terms ctx t =
                Some (Term (Some (Pattern q [Placeable (VariableReference name)])))
              \<and> q \<noteq> p
              \<and> length (babel_locale ctx (FluentNone (Some name))) \<le> MAX_PART_LENGTH \<longrightarrow>
             resolve (Suc (Suc (Suc (Suc (Suc (Suc (Suc (Suc k)))))))) ctx
               (Message (Some (Pattern p [Placeable (Ref (TermReference t))]))) arg_map =
             Some (Inr (babel_locale ctx (FluentNone (Some name)), [])))
         \<and> (messages_and_terms ctx t =
                Some (Term (Some (Pattern q [Placeable (VariableReference name)])))
              \<and> q \<noteq> p \<and> name \<noteq> y \<and> arg_map z = None
              \<and> length (babel_locale ctx (FluentNone (Some name))) \<le> MAX_PART_LENGTH \<longrightarrow>
             resolve (Suc (Suc (Suc (Suc (Suc (Suc (Suc (Suc k)))))))) ctx
               (Message (Some (Pattern p
                  [Placeable (CallExpression (CalleeReference (TermReference t)) []
                                [(y, VariableReference z)])]))) arg_map =
             Some (Inr (babel_locale ctx (FluentNone (Some name)), [UnknownExternal z])))"
proof -
  from assms have 1: "handle (Suc n) (VariableReference name) env =
           Some (Inr (FluentNone (Some name)),
                 if error_for_missing_arg (current env)
                 then env\<lparr>errors := errors env @ [UnknownExternal name]\<rparr> else env)"
    by (simp add: handle_variable_reference_def ret_def append_error_def)
  have 2: "error_for_missing_arg (current (initial_env ctx arg_map))"
    by (simp add: initial_env_def)
  from 1 2 show ?thesis
    using term_reference_scope [of env t nd n] term_call_scope [of n named env kwargs env1 t nd]
      resolve_missing_variable [of arg_map name ctx k p]
      resolve_missing_variable_in_term [of ctx t q name p k arg_map]
      resolve_missing_variable_in_called_term [of ctx t q name p y arg_map z k]
    by simp
qed

theorem handle_variable_reference_missing_witness:
  "args (current (initial_env
       (example_bundle [ustr ''-t'' \<mapsto> Term (Some (Pattern 2
          [Placeable (VariableReference (ustr ''x''))]))] False) Map.empty)) (ustr ''x'') = None
   \<and> handle (Suc 0) (VariableReference (ustr ''x''))
       (initial_env
         (example_bundle [ustr ''-t'' \<mapsto> Term (Some (Pattern 2
            [Placeable (VariableReference (ustr ''x''))]))] False) Map.empty) =
       Some (Inr (FluentNone (Some (ustr ''x''))),
         (initial_env
           (example_bundle [ustr ''-t'' \<mapsto> Term (Some (Pattern 2
              [Placeable (VariableReference (ustr ''x''))]))] False) Map.empty)
           \<lparr>errors := [UnknownExternal (ustr ''x'')]\<rparr>)
   \<and> resolve (Suc (Suc (Suc (Suc 0))))
        (example_bundle [ustr ''-t'' \<mapsto> Term (Some (Pattern 2
           [Placeable (VariableReference (ustr ''x''))]))] False)
        (Message (Some (Pattern 1 [Placeable (VariableReference (ustr ''x''))]))) Map.empty =
       Some (Inr (ustr ''x'', [UnknownExternal (ustr ''x'')]))
   \<and> resolve (Suc (Suc (Suc (Suc (Suc (Suc (Suc (Suc 0))))))))
        (example_bundle [ustr ''-t'' \<mapsto> Term (Some (Pattern 2
           [Placeable (VariableReference (ustr ''x''))]))] False)
        (Message (Some (Pattern 1 [Placeable (Ref (TermReference (ustr ''-t'')))]))) Map.empty =
       Some (Inr (ustr ''x'', []))
   \<and> resolve (Suc (Suc (Suc (Suc (Suc (Suc (Suc (Suc 0))))))))
        (example_bundle [ustr ''-t'' \<mapsto> Term (Some (Pattern 2
           [Placeable (VariableReference (ustr ''x''))]))] False)
        (Message (Some (Pattern 1
           [Placeable (CallExpression (CalleeReference (TermReference (ustr ''-t''))) []
                         [(ustr ''y'', VariableReference (ustr ''z''))])]))) Map.empty =
       Some (Inr (ustr ''x'', [UnknownExternal (ustr ''z'')]))"
  using handle_variable_reference_missing
    [where env = "initial_env
         (example_bundle [ustr ''-t'' \<mapsto> Term (Some (Pattern 2
            [Placeable (VariableReference (ustr ''x''))]))] False) Map.empty"
       and name = "ustr ''x''" and n = 0
       and ctx = "example_bundle [ustr ''-t'' \<mapsto> Term (Some (Pattern 2
            [Placeable (VariableReference (ustr ''x''))]))] False"
       and arg_map = Map.empty and t = "ustr ''-t''"
       and nd = "Term (Some (Pattern 2 [Placeable (VariableReference (ustr ''x''))]))"
       and named = "[]" and kwargs = Map.empty
       and ?env1.0 = "initial_env
         (example_bundle [ustr ''-t'' \<mapsto> Term (Some (Pattern 2
            [Placeable (VariableReference (ustr ''x''))]))] False) Map.empty"
       and k = 0 and p = 1 and q = 2 and y = "ustr ''y''" and z = "ustr ''z''"]
  by (simp add: initial_env_def example_bundle_def ustr_def MAX_PART_LENGTH_def)

section \<open>The part counter across nested patterns\<close>

text \<open>
  A run of text elements that starts under the ceiling and is longer than what is left of
  the budget; a reference to a message of text elements; and a pattern whose elements so
  far have left the counter above the ceiling.
\<close>

lemma texts_to_ceiling:
  assumes "part_count env \<le> MAX_PARTS"
    and "int (length texts) > MAX_PARTS - part_count env"
  shows "handle_pattern_elements h use_iso (map TextElement texts) parts env =
           Some (Inr (parts @ take (nat (MAX_PARTS - part_count env)) texts
                        @ [babel_locale (env_context env) (FluentNone None)]),
                 env\<lparr>part_count := MAX_PARTS + 1, errors := errors env @ [TooManyParts]\<rparr>)"
proof -
  define k where "k = nat (MAX_PARTS - part_count env)"
  from assms have k: "k < length texts" and c: "part_count env + int k = MAX_PARTS"
    by (simp_all add: k_def)
  have split: "texts = take k texts @ texts ! k # drop (Suc k) texts"
    using k by (rule id_take_nth_drop)
  have "handle_pattern_elements h use_iso (map TextElement (take k texts)) parts env =
      Some (Inr (parts @ take k texts), env\<lparr>part_count := part_count env + int (length (take k texts))\<rparr>)"
    using k c by (intro text_elements_run) simp
  with k c have run: "handle_pattern_elements h use_iso (map TextElement (take k texts)) parts env =
      Some (Inr (parts @ take k texts), env\<lparr>part_count := MAX_PARTS\<rparr>)"
    by (simp add: min_def)
  have "handle_pattern_elements h use_iso
          (map TextElement (take k texts) @ TextElement (texts ! k)
             # map TextElement (drop (Suc k) texts)) parts env =
      Some (Inr ((parts @ take k texts) @ [babel_locale (env_context env) (FluentNone None)]),
            env\<lparr>part_count := MAX_PARTS + 1, errors := errors env @ [TooManyParts]\<rparr>)"
    using elements_reach_ceiling [OF run, of "TextElement (texts ! k)"
        "map TextElement (drop (Suc k) texts)"]
    by simp
  moreover have "map TextElement (take k texts) @ TextElement (texts ! k)
             # map TextElement (drop (Suc k) texts) = map TextElement texts"
    by (subst (3) split) simp
  ultimately show ?thesis
    by (simp add: k_def)
qed

lemma nested_texts_message:
  assumes "messages_and_terms (env_context env) m =
             Some (Message (Some (Pattern q (map TextElement inner))))"
    and "q \<notin> dirty env"
    and "part_count env + int (length inner) \<le> MAX_PARTS"
  shows "handle (Suc (Suc (Suc (Suc k)))) (Placeable (Ref (MessageReference m))) env =
           Some (Inr (PyStr (concat inner)),
                 env\<lparr>part_count := part_count env + int (length inner)\<rparr>)"
proof -
  let ?env = "env\<lparr>dirty := insert q (dirty env)\<rparr>"
  let ?iso = "use_isolating (env_context env) \<and> 1 < length (map TextElement inner)"
  have "handle_pattern_elements (handle k) ?iso (map TextElement inner) [] ?env =
      Some (Inr ([] @ inner), ?env\<lparr>part_count := part_count ?env + int (length inner)\<rparr>)"
    using assms(3) by (intro text_elements_run) simp
  with assms(1,2) show ?thesis
    by (simp add: handle_message_reference_def lookup_reference_def bind_def ret_def
        handle_obj_def handle_opt_def handle_pattern_def Let_def)
qed

lemma elements_stop_after_ceiling:
  assumes "handle_pattern_elements h use_iso pre parts env = Some (Inr parts1, env1)"
    and "part_count env1 > MAX_PARTS"
  shows "handle_pattern_elements h use_iso (pre @ rest) parts env = Some (Inr parts1, env1)
         \<or> handle_pattern_elements h use_iso (pre @ rest) parts env =
             Some (Inr parts1, env1\<lparr>part_count := part_count env1 + 1\<rparr>)"
  using assms
proof (induction pre arbitrary: parts env)
  case Nil
  then show ?case by (cases rest) (simp_all add: ret_def)
next
  case (Cons element pre)
  show ?case
  proof (cases "part_count env + 1 > MAX_PARTS")
    case True
    with Cons.prems show ?thesis
      by (auto simp: bind_def ret_def append_error_def fully_resolve_value_placeholder Let_def
          split: if_splits)
  next
    case False
    show ?thesis
    proof (cases "text_element_value element")
      case (Some v)
      with False Cons.prems Cons.IH [of "parts @ [v]" "env\<lparr>part_count := part_count env + 1\<rparr>"]
      show ?thesis by simp
    next
      case None
      with False Cons.prems obtain part env2 where
        fr: "fully_resolve h element (env\<lparr>part_count := part_count env + 1\<rparr>) = Some (Inr part, env2)"
        by (auto simp: bind_def split: option.splits sum.splits prod.splits)
      let ?parts3 = "parts @ (if use_iso then [FSI] else [])
          @ [if length part > MAX_PART_LENGTH then take MAX_PART_LENGTH part else part]
          @ (if use_iso then [PDI] else [])"
      let ?env3 = "if length part > MAX_PART_LENGTH
          then append_error (PartTooLong (length part)) env2 else env2"
      from fr None False have eq: "handle_pattern_elements h use_iso (element # es) parts env =
          handle_pattern_elements h use_iso es ?parts3 ?env3" for es
        by (simp add: bind_def Let_def)
      from Cons.prems(1) have "handle_pattern_elements h use_iso pre ?parts3 ?env3 =
          Some (Inr parts1, env1)"
        unfolding eq .
      then have "handle_pattern_elements h use_iso (pre @ rest) ?parts3 ?env3 = Some (Inr parts1, env1)
         \<or> handle_pattern_elements h use_iso (pre @ rest) ?parts3 ?env3 =
             Some (Inr parts1, env1\<lparr>part_count := part_count env1 + 1\<rparr>)"
        using Cons.prems(2) by (rule Cons.IH)
      then show ?thesis
        unfolding append_Cons eq .
    qed
  qed
qed


lemma resolve_nested:
  assumes reg: "messages_and_terms ctx m = Some (Message (Some (Pattern q (map TextElement inner))))"
    and qp: "q \<noteq> p"
    and len: "length (concat inner) \<le> MAX_PART_LENGTH"
    and inner: "1 + int (length inner) \<le> MAX_PARTS"
  shows "resolve (Suc (Suc (Suc (Suc (Suc (Suc k)))))) ctx
           (Message (Some (Pattern p
              (Placeable (Ref (MessageReference m)) # map TextElement texts)))) arg_map =
         (if 1 + int (length inner) + int (length texts) \<le> MAX_PARTS
          then Some (Inr ((if use_isolating ctx \<and> texts \<noteq> [] then FSI else [])
                          @ concat inner
                          @ (if use_isolating ctx \<and> texts \<noteq> [] then PDI else [])
                          @ concat texts, []))
          else Some (Inr ((if use_isolating ctx \<and> texts \<noteq> [] then FSI else [])
                          @ concat inner
                          @ (if use_isolating ctx \<and> texts \<noteq> [] then PDI else [])
                          @ concat (take (nat (MAX_PARTS - 1 - int (length inner))) texts)
                          @ babel_locale ctx (FluentNone None), [TooManyParts])))"
proof -
  define h where "h = handle (Suc (Suc (Suc (Suc k))))"
  define iso where "iso = (use_isolating ctx \<and> texts \<noteq> [])"
  define start where "start = initial_env ctx arg_map"
  define envd where "envd = start\<lparr>dirty := {p}\<rparr>"
  define env1 where "env1 = envd\<lparr>part_count := 1\<rparr>"
  define env2 where "env2 = envd\<lparr>part_count := 1 + int (length inner)\<rparr>"
  define parts3 where "parts3 = (if iso then [FSI] else []) @ [concat inner] @ (if iso then [PDI] else [])"
  define ref where "ref = Placeable (Ref (MessageReference m))"
  define els where "els = ref # map TextElement texts"
  have "handle (Suc (Suc (Suc (Suc k)))) (Placeable (Ref (MessageReference m))) env1 =
      Some (Inr (PyStr (concat inner)), env1\<lparr>part_count := part_count env1 + int (length inner)\<rparr>)"
    using reg qp inner
    by (intro nested_texts_message) (simp_all add: env1_def envd_def start_def initial_env_def)
  then have fr: "fully_resolve h ref env1 = Some (Inr (concat inner), env2)"
    by (simp add: fully_resolve_def fully_resolve_value_def bind_def ret_def h_def ref_def
        env1_def env2_def)
  have step: "handle_pattern_elements h iso els [] envd =
      handle_pattern_elements h iso (map TextElement texts) parts3 env2"
    unfolding els_def using fr len
    by (cases iso)
      (simp_all add: envd_def env1_def start_def initial_env_def MAX_PARTS_def
        text_element_value_def ref_def bind_def Let_def parts3_def)
  have cp: "concat parts3 = (if iso then FSI else []) @ concat inner @ (if iso then PDI else [])"
    by (simp add: parts3_def)
  have iso: "(use_isolating (env_context start) \<and> Suc 0 < length els) = iso"
    by (auto simp: iso_def els_def start_def initial_env_def)
  have pat: "handle_pattern h p els start =
      Some (Inr (PyStr (concat ps)), e\<lparr>dirty := dirty e - {p}\<rparr>)"
    if "handle_pattern_elements h iso (map TextElement texts) parts3 env2 = Some (Inr ps, e)"
    for ps e
  proof -
    have "p \<notin> dirty start" by (simp add: start_def initial_env_def)
    moreover have "handle_pattern_elements h iso els [] (start\<lparr>dirty := insert p (dirty start)\<rparr>) =
        Some (Inr ps, e)"
      using step that by (simp add: envd_def start_def initial_env_def)
    ultimately show ?thesis
      unfolding handle_pattern_def by (simp add: Let_def bind_def ret_def iso)
  qed
  have res: "resolve (Suc (Suc (Suc (Suc (Suc (Suc k)))))) ctx (Message (Some (Pattern p els))) arg_map =
      Some (Inr (concat ps, errors e))"
    if "handle_pattern_elements h iso (map TextElement texts) parts3 env2 = Some (Inr ps, e)"
    for ps e
    using pat [OF that]
    by (simp add: resolve_def fully_resolve_def fully_resolve_value_def bind_def ret_def
        handle_opt_def Let_def h_def start_def)
  show ?thesis
  proof (cases "1 + int (length inner) + int (length texts) \<le> MAX_PARTS")
    case True
    then have "handle_pattern_elements h iso (map TextElement texts) parts3 env2 =
        Some (Inr (parts3 @ texts), env2\<lparr>part_count := part_count env2 + int (length texts)\<rparr>)"
      by (intro text_elements_run) (simp add: env2_def)
    from res [OF this] True show ?thesis
      unfolding els_def ref_def
      by (simp add: cp iso_def env2_def envd_def start_def initial_env_def)
  next
    case False
    with inner have "handle_pattern_elements h iso (map TextElement texts) parts3 env2 =
        Some (Inr (parts3 @ take (nat (MAX_PARTS - part_count env2)) texts
                     @ [babel_locale (env_context env2) (FluentNone None)]),
              env2\<lparr>part_count := MAX_PARTS + 1, errors := errors env2 @ [TooManyParts]\<rparr>)"
      by (intro texts_to_ceiling) (simp_all add: env2_def)
    from res [OF this] False show ?thesis
      unfolding els_def ref_def
      by (simp add: cp iso_def env2_def envd_def start_def initial_env_def algebra_simps)
  qed
qed


lemma pattern_at_ceiling:
  assumes "pattern \<notin> dirty env"
    and "handle_pattern_elements h
           (use_isolating (env_context env) \<and> length (pre @ element # rest) > 1) pre []
           (env\<lparr>dirty := insert pattern (dirty env)\<rparr>) = Some (Inr parts1, env1)"
    and "part_count env1 = MAX_PARTS"
  shows "handle_pattern h pattern (pre @ element # rest) env =
           Some (Inr (PyStr (concat parts1 @ babel_locale (env_context env1) (FluentNone None))),
                 env1\<lparr>part_count := MAX_PARTS + 1, errors := errors env1 @ [TooManyParts],
                      dirty := dirty env1 - {pattern}\<rparr>)"
proof -
  let ?iso = "use_isolating (env_context env) \<and> length (pre @ element # rest) > 1"
  from assms(3) have "handle_pattern_elements h ?iso (element # rest) [] env1 =
      Some (Inr ([] @ [babel_locale (env_context env1) (FluentNone None)]),
            env1\<lparr>part_count := MAX_PARTS + 1, errors := errors env1 @ [TooManyParts]\<rparr>)"
    by (rule elements_at_ceiling)
  from pattern_split [OF assms(1) assms(2) _ this] assms(3) show ?thesis
    by simp
qed

lemma pattern_above_ceiling:
  assumes "pattern \<notin> dirty env"
    and "handle_pattern_elements h
           (use_isolating (env_context env) \<and> length (pre @ rest) > 1) pre []
           (env\<lparr>dirty := insert pattern (dirty env)\<rparr>) = Some (Inr parts1, env1)"
    and "part_count env1 > MAX_PARTS"
  shows "handle_pattern h pattern (pre @ rest) env =
           Some (Inr (PyStr (concat parts1)), env1\<lparr>dirty := dirty env1 - {pattern}\<rparr>)
         \<or> handle_pattern h pattern (pre @ rest) env =
           Some (Inr (PyStr (concat parts1)),
                 env1\<lparr>part_count := part_count env1 + 1, dirty := dirty env1 - {pattern}\<rparr>)"
  using elements_stop_after_ceiling [OF assms(2) assms(3), of rest] assms(1)
  by (auto simp: handle_pattern_def Let_def bind_def ret_def)

text \<open>
  C5 (as the claim states it, refuted). A pattern of 1001 elements whose first
  element refers to a message of one text element, followed by 1000 texts: the element of
  the nested pattern is counted too, so the output reflects the first 999 elements (the
  nested text and 998 texts) and the placeholder, not the first 1000.
\<close>

theorem nested_message_uses_budget:
  "resolve (Suc (Suc (Suc (Suc (Suc (Suc 0))))))
     (example_bundle [ustr ''m'' \<mapsto> Message (Some (Pattern 2 [TextElement (ustr ''x'')]))] False)
     (Message (Some (Pattern 1
        (Placeable (Ref (MessageReference (ustr ''m'')))
           # map TextElement (replicate 1000 (ustr ''a'')))))) Map.empty =
   Some (Inr (ustr ''x'' @ concat (replicate 998 (ustr ''a'')) @ ustr ''???'', [TooManyParts]))"
  using resolve_nested
    [where ctx = "example_bundle [ustr ''m'' \<mapsto> Message (Some (Pattern 2 [TextElement (ustr ''x'')]))]
                    False"
       and m = "ustr ''m''" and q = 2 and p = 1 and inner = "[ustr ''x'']"
       and texts = "replicate 1000 (ustr ''a'')" and k = 0 and arg_map = Map.empty]
  by (simp add: example_bundle_def MAX_PARTS_def MAX_PART_LENGTH_def ustr_def)

text \<open>
  C5 (amended). One counter counts the elements of all patterns of a resolution, nested ones
  included: it never decreases, and over any evaluation the number of too-many-parts
  diagnostics grows by one if the counter passes 1000 during it and by nothing otherwise,
  so a resolution reports at most one. An element that is reached with the counter at 1000
  takes it to 1001, appends the diagnostic and the text of a placeholder, and ends the
  pattern; when the elements of a pattern so far leave the counter above 1000 (the ceiling
  was passed inside one of them), no further element of the pattern contributes anything
  and no diagnostic is added. The elements of a referenced message are counted with those
  of the referring pattern: a pattern that refers to a message of \<open>j\<close> texts and goes
  on with further texts yields all of them when \<open>1 + j\<close> and their number stay
  within 1000, and otherwise only the first \<open>1000 - 1 - j\<close> of them, followed by
  the placeholder, with one diagnostic. In particular a message of 1001 text elements
  resolves to the first 1000 texts followed by the placeholder, with exactly one
  diagnostic.
\<close>

theorem too_many_parts_once:
  "(handle n nd env = Some (r, env') \<longrightarrow>
      part_count env \<le> part_count env'
      \<and> count_list (errors env') TooManyParts =
          count_list (errors env) TooManyParts
            + (if part_count env \<le> MAX_PARTS \<and> MAX_PARTS < part_count env' then 1 else 0))
   \<and> (resolve n ctx message arg_map = Some (Inr (s, errs)) \<longrightarrow> count_list errs TooManyParts \<le> 1)
   \<and> (pattern \<notin> dirty env
        \<and> handle_pattern_elements (handle j)
             (use_isolating (env_context env) \<and> length (pre @ element # rest) > 1) pre []
             (env\<lparr>dirty := insert pattern (dirty env)\<rparr>) = Some (Inr parts1, env1)
        \<and> part_count env1 = MAX_PARTS \<longrightarrow>
      handle (Suc j) (Pattern pattern (pre @ element # rest)) env =
        Some (Inr (PyStr (concat parts1 @ babel_locale (env_context env1) (FluentNone None))),
              env1\<lparr>part_count := MAX_PARTS + 1, errors := errors env1 @ [TooManyParts],
                   dirty := dirty env1 - {pattern}\<rparr>))
   \<and> (pattern \<notin> dirty env
        \<and> handle_pattern_elements (handle j)
             (use_isolating (env_context env) \<and> length (pre @ rest) > 1) pre []
             (env\<lparr>dirty := insert pattern (dirty env)\<rparr>) = Some (Inr parts1, env1)
        \<and> part_count env1 > MAX_PARTS \<longrightarrow>
      handle (Suc j) (Pattern pattern (pre @ rest)) env =
        Some (Inr (PyStr (concat parts1)), env1\<lparr>dirty := dirty env1 - {pattern}\<rparr>)
      \<or> handle (Suc j) (Pattern pattern (pre @ rest)) env =
        Some (Inr (PyStr (concat parts1)),
              env1\<lparr>part_count := part_count env1 + 1, dirty := dirty env1 - {pattern}\<rparr>))
   \<and> (messages_and_terms ctx ref_id = Some (Message (Some (Pattern q (map TextElement inner))))
        \<and> q \<noteq> p \<and> length (concat inner) \<le> MAX_PART_LENGTH
        \<and> 1 + int (length inner) \<le> MAX_PARTS \<longrightarrow>
      resolve (Suc (Suc (Suc (Suc (Suc (Suc k)))))) ctx
        (Message (Some (Pattern p
           (Placeable (Ref (MessageReference ref_id)) # map TextElement texts)))) arg_map =
      (if 1 + int (length inner) + int (length texts) \<le> MAX_PARTS
       then Some (Inr ((if use_isolating ctx \<and> texts \<noteq> [] then FSI else [])
                       @ concat inner
                       @ (if use_isolating ctx \<and> texts \<noteq> [] then PDI else [])
                       @ concat texts, []))
       else Some (Inr ((if use_isolating ctx \<and> texts \<noteq> [] then FSI else [])
                       @ concat inner
                       @ (if use_isolating ctx \<and> texts \<noteq> [] then PDI else [])
                       @ concat (take (nat (MAX_PARTS - 1 - int (length inner))) texts)
                       @ babel_locale ctx (FluentNone None), [TooManyParts]))))
   \<and> (length texts = 1001 \<longrightarrow>
      resolve (Suc (Suc k)) ctx (Message (Some (Pattern p (map TextElement texts)))) arg_map =
        Some (Inr (concat (take 1000 texts) @ babel_locale ctx (FluentNone None),
                   [TooManyParts])))"
proof -
  have 1: "handle n nd env = Some (r, env') \<longrightarrow> counted env env'"
    using obeysD_ret [OF obeys_handle [OF frame_counted], of n nd env _ env']
      obeysD_raise [OF obeys_handle [OF frame_counted], of n nd env _ env']
    by (cases r) auto
  have 2: "resolve n ctx message arg_map = Some (Inr (s, errs)) \<longrightarrow> count_list errs TooManyParts \<le> 1"
  proof
    assume "resolve n ctx message arg_map = Some (Inr (s, errs))"
    then have "\<exists>env2.
      fully_resolve (handle n) message (initial_env ctx arg_map) = Some (Inr s, env2)
      \<and> errs = errors env2"
      by (auto simp: resolve_def Let_def split: option.splits sum.splits prod.splits)
    then obtain env2 where
      fr: "fully_resolve (handle n) message (initial_env ctx arg_map) = Some (Inr s, env2)"
      and errs: "errs = errors env2"
      by blast
    have "obeys counted counted (fully_resolve (handle n) message)"
      by (rule obeys_fully_resolve [OF frame_counted]) (rule obeys_handle [OF frame_counted])
    then have "counted (initial_env ctx arg_map) env2"
      using fr by (rule obeysD_ret)
    with errs show "count_list errs TooManyParts \<le> 1"
      by (simp add: counted_def initial_env_def)
  qed
  have 3: "pattern \<notin> dirty env
        \<and> handle_pattern_elements (handle j)
             (use_isolating (env_context env) \<and> length (pre @ element # rest) > 1) pre []
             (env\<lparr>dirty := insert pattern (dirty env)\<rparr>) = Some (Inr parts1, env1)
        \<and> part_count env1 = MAX_PARTS \<longrightarrow>
      handle (Suc j) (Pattern pattern (pre @ element # rest)) env =
        Some (Inr (PyStr (concat parts1 @ babel_locale (env_context env1) (FluentNone None))),
              env1\<lparr>part_count := MAX_PARTS + 1, errors := errors env1 @ [TooManyParts],
                   dirty := dirty env1 - {pattern}\<rparr>)"
    using pattern_at_ceiling [of pattern env "handle j" pre element rest parts1 env1] by simp
  have 4: "pattern \<notin> dirty env
        \<and> handle_pattern_elements (handle j)
             (use_isolating (env_context env) \<and> length (pre @ rest) > 1) pre []
             (env\<lparr>dirty := insert pattern (dirty env)\<rparr>) = Some (Inr parts1, env1)
        \<and> part_count env1 > MAX_PARTS \<longrightarrow>
      handle (Suc j) (Pattern pattern (pre @ rest)) env =
        Some (Inr (PyStr (concat parts1)), env1\<lparr>dirty := dirty env1 - {pattern}\<rparr>)
      \<or> handle (Suc j) (Pattern pattern (pre @ rest)) env =
        Some (Inr (PyStr (concat parts1)),
              env1\<lparr>part_count := part_count env1 + 1, dirty := dirty env1 - {pattern}\<rparr>)"
    using pattern_above_ceiling [of pattern env "handle j" pre rest parts1 env1] by simp
  note 5 = resolve_nested [of ctx ref_id q inner p k texts arg_map]
  note 6 = resolve_text_elements [of texts k ctx p arg_map]
  from 1 have 1: "handle n nd env = Some (r, env') \<longrightarrow>
      part_count env \<le> part_count env'
      \<and> count_list (errors env') TooManyParts =
          count_list (errors env) TooManyParts
            + (if part_count env \<le> MAX_PARTS \<and> MAX_PARTS < part_count env' then 1 else 0)"
    by (simp add: counted_def)
  from 1 2 3 4 5 6 show ?thesis
    by blast
qed


theorem too_many_parts_once_witness:
  "resolve (Suc (Suc 0)) (example_bundle Map.empty False) thousand_and_one Map.empty =
     Some (Inr (concat (replicate 1000 (ustr ''a'')) @ ustr ''???'', [TooManyParts]))
   \<and> handle (Suc (Suc 0)) (Pattern 1 ([TextElement (ustr ''b'')] @ TextElement (ustr ''c'') # []))
        (env0\<lparr>part_count := 999\<rparr>) =
       Some (Inr (PyStr (ustr ''b'' @ ustr ''???'')),
             env0\<lparr>part_count := 1001, errors := [TooManyParts]\<rparr>)
   \<and> handle (Suc (Suc 0)) (Pattern 1 ([TextElement (ustr ''b'')] @ [TextElement (ustr ''c'')]))
        (env0\<lparr>part_count := 1001\<rparr>) =
       Some (Inr (PyStr []), env0\<lparr>part_count := 1002\<rparr>)
   \<and> resolve (Suc (Suc (Suc (Suc (Suc (Suc 0))))))
        (example_bundle
           [ustr ''m'' \<mapsto> Message (Some (Pattern 2 (map TextElement [ustr ''x'', ustr ''y''])))] False)
        (Message (Some (Pattern 1
           (Placeable (Ref (MessageReference (ustr ''m''))) # map TextElement [ustr ''b''])))) Map.empty =
       Some (Inr (ustr ''x'' @ ustr ''y'' @ ustr ''b'', []))
   \<and> resolve (Suc (Suc (Suc (Suc (Suc (Suc 0))))))
        (example_bundle
           [ustr ''m'' \<mapsto> Message (Some (Pattern 2 (map TextElement [ustr ''x'', ustr ''y''])))] False)
        (Message (Some (Pattern 1
           (Placeable (Ref (MessageReference (ustr ''m'')))
              # map TextElement (replicate 1000 (ustr ''a'')))))) Map.empty =
       Some (Inr (ustr ''x'' @ ustr ''y'' @ concat (replicate 997 (ustr ''a'')) @ ustr ''???'',
                  [TooManyParts]))"
proof -
  let ?ctx = "example_bundle
           [ustr ''m'' \<mapsto> Message (Some (Pattern 2 (map TextElement [ustr ''x'', ustr ''y''])))] False"
  note inst = too_many_parts_once
    [where n = 0 and nd = "TextElement []" and r = "Inr PyNone" and env' = env0
       and message = "TextElement []" and s = "[]" and errs = "[]"
       and element = "TextElement (ustr ''c'')" and j = "Suc 0" and pattern = 1
       and pre = "[TextElement (ustr ''b'')]" and ref_id = "ustr ''m''" and q = 2
       and inner = "[ustr ''x'', ustr ''y'']" and p = 1 and k = 0 and arg_map = Map.empty]
  have 1: "resolve (Suc (Suc 0)) (example_bundle Map.empty False) thousand_and_one Map.empty =
     Some (Inr (concat (replicate 1000 (ustr ''a'')) @ ustr ''???'', [TooManyParts]))"
    using inst [where texts = "replicate 1001 (ustr ''a'')" and ctx = "example_bundle Map.empty False"
        and env = "env0\<lparr>dirty := {1}\<rparr>" and rest = "[]" and ?parts1.0 = "[]" and ?env1.0 = env0]
    by (simp add: thousand_and_one_def example_bundle_def)
  have 2: "handle (Suc (Suc 0)) (Pattern 1 ([TextElement (ustr ''b'')] @ TextElement (ustr ''c'') # []))
        (env0\<lparr>part_count := 999\<rparr>) =
       Some (Inr (PyStr (ustr ''b'' @ ustr ''???'')),
             env0\<lparr>part_count := 1001, errors := [TooManyParts]\<rparr>)"
    using inst [where texts = "[]" and ctx = "example_bundle Map.empty False"
        and env = "env0\<lparr>part_count := 999\<rparr>" and rest = "[]"
        and ?parts1.0 = "[ustr ''b'']" and ?env1.0 = "env0\<lparr>dirty := {1}, part_count := 1000\<rparr>"]
    by (simp add: env0_def initial_env_def example_bundle_def text_element_value_def ret_def
        MAX_PARTS_def)
  have 3: "handle (Suc (Suc 0)) (Pattern 1 ([TextElement (ustr ''b'')] @ [TextElement (ustr ''c'')]))
        (env0\<lparr>part_count := 1001\<rparr>) =
       Some (Inr (PyStr []), env0\<lparr>part_count := 1002\<rparr>)"
    using inst [where texts = "[]" and ctx = "example_bundle Map.empty False"
        and env = "env0\<lparr>part_count := 1001\<rparr>" and rest = "[TextElement (ustr ''c'')]"
        and ?parts1.0 = "[]" and ?env1.0 = "env0\<lparr>dirty := {1}, part_count := 1002\<rparr>"]
    by (simp add: env0_def initial_env_def example_bundle_def text_element_value_def ret_def
        MAX_PARTS_def handle_pattern_def bind_def)
  have 4: "resolve (Suc (Suc (Suc (Suc (Suc (Suc 0)))))) ?ctx
        (Message (Some (Pattern 1
           (Placeable (Ref (MessageReference (ustr ''m''))) # map TextElement [ustr ''b''])))) Map.empty =
       Some (Inr (ustr ''x'' @ ustr ''y'' @ ustr ''b'', []))"
    using inst [where texts = "[ustr ''b'']" and ctx = ?ctx
        and env = "env0\<lparr>dirty := {1}\<rparr>" and rest = "[]" and ?parts1.0 = "[]" and ?env1.0 = env0]
    by (simp add: example_bundle_def MAX_PARTS_def MAX_PART_LENGTH_def ustr_def)
  have 5: "resolve (Suc (Suc (Suc (Suc (Suc (Suc 0)))))) ?ctx
        (Message (Some (Pattern 1
           (Placeable (Ref (MessageReference (ustr ''m'')))
              # map TextElement (replicate 1000 (ustr ''a'')))))) Map.empty =
       Some (Inr (ustr ''x'' @ ustr ''y'' @ concat (replicate 997 (ustr ''a'')) @ ustr ''???'',
                  [TooManyParts]))"
    using inst [where texts = "replicate 1000 (ustr ''a'')" and ctx = ?ctx
        and env = "env0\<lparr>dirty := {1}\<rparr>" and rest = "[]" and ?parts1.0 = "[]" and ?env1.0 = env0]
    by (simp add: example_bundle_def MAX_PARTS_def MAX_PART_LENGTH_def ustr_def)
  from 1 2 3 4 5 show ?thesis by blast
qed

section \<open>Raising the recursion bound\<close>

text \<open>
  An evaluation that ends within a bound on the nested calls of \<^verbatim>\<open>handle\<close> has the
  same outcome under every larger bound.
\<close>

lemma le_comp_at: "le_comp m m' \<Longrightarrow> m env = None \<or> m' env = m env"
  by (simp add: le_comp_def)

lemma le_comp_refl: "le_comp m m"
  by (simp add: le_comp_def)

lemma le_compD: "le_comp m m' \<Longrightarrow> m env = Some r \<Longrightarrow> m' env = Some r"
  unfolding le_comp_def by (metis option.distinct(1))

lemma le_comp_bind:
  assumes "le_comp m m'" and "\<And>v. le_comp (f v) (f' v)"
  shows "le_comp (bind m f) (bind m' f')"
  unfolding le_comp_def
proof
  fix env
  show "bind m f env = None \<or> bind m' f' env = bind m f env"
  proof (cases "m env")
    case None
    then show ?thesis by (simp add: bind_def)
  next
    case (Some a)
    with assms(1) have "m' env = Some a" by (simp add: le_compD)
    with Some assms(2) show ?thesis
      by (auto simp: bind_def le_comp_def split: prod.splits sum.splits)
  qed
qed

lemma le_comp_cond:
  "(\<And>env. c env \<Longrightarrow> m1 env = None \<or> m1' env = m1 env)
   \<Longrightarrow> (\<And>env. \<not> c env \<Longrightarrow> m2 env = None \<or> m2' env = m2 env)
   \<Longrightarrow> le_comp (\<lambda>env. if c env then m1 env else m2 env) (\<lambda>env. if c env then m1' env else m2' env)"
  by (simp add: le_comp_def)

lemma le_comp_modified:
  assumes "le_comp m m'"
  shows "le_comp (modified f m) (modified f m')"
  unfolding le_comp_def
proof
  fix env :: resolver_environment
  from le_comp_at [OF assms, of "env\<lparr>current := f (current env)\<rparr>"]
  show "modified f m env = None \<or> modified f m' env = modified f m env"
    by (auto simp: modified_def Let_def)
qed

lemma le_fully_resolve: "le_handle h h' \<Longrightarrow> le_comp (fully_resolve h expr) (fully_resolve h' expr)"
  by (simp add: fully_resolve_def le_comp_bind le_comp_refl le_handle_def)

lemma le_handle_obj: "le_handle h h' \<Longrightarrow> le_comp (handle_obj h x) (handle_obj h' x)"
  by (cases x) (simp_all add: handle_obj_def le_comp_refl le_handle_def)

lemma le_handle_opt: "le_handle h h' \<Longrightarrow> le_comp (handle_opt h x) (handle_opt h' x)"
  by (cases x) (simp_all add: handle_opt_def le_comp_refl le_handle_def)

lemma le_handle_pattern_elements:
  assumes h: "le_handle h h'"
  shows "le_comp (handle_pattern_elements h use_iso elements parts)
           (handle_pattern_elements h' use_iso elements parts)"
proof (induction elements arbitrary: parts)
  case Nil
  show ?case by (simp add: le_comp_def)
next
  case (Cons element rest)
  define P :: "ustring \<Rightarrow> ustring list" where
    "P = (\<lambda>part. parts @ (if use_iso then [FSI] else [])
          @ [if length part > MAX_PART_LENGTH then take MAX_PART_LENGTH part else part]
          @ (if use_iso then [PDI] else []))"
  define E :: "ustring \<Rightarrow> resolver_environment \<Rightarrow> resolver_environment" where
    "E = (\<lambda>part env2. if length part > MAX_PART_LENGTH
          then append_error (PartTooLong (length part)) env2 else env2)"
  have step: "le_comp
      (bind (fully_resolve h element)
         (\<lambda>part env2. handle_pattern_elements h use_iso rest (P part) (E part env2)))
      (bind (fully_resolve h' element)
         (\<lambda>part env2. handle_pattern_elements h' use_iso rest (P part) (E part env2)))"
  proof (rule le_comp_bind [OF le_fully_resolve [OF h]])
    fix part
    show "le_comp (\<lambda>env2. handle_pattern_elements h use_iso rest (P part) (E part env2))
            (\<lambda>env2. handle_pattern_elements h' use_iso rest (P part) (E part env2))"
      using Cons.IH [of "P part"] by (simp add: le_comp_def)
  qed
  have eq: "part_count env + 1 \<le> MAX_PARTS \<Longrightarrow> text_element_value element = None \<Longrightarrow>
      handle_pattern_elements g use_iso (element # rest) parts env =
      bind (fully_resolve g element)
         (\<lambda>part env2. handle_pattern_elements g use_iso rest (P part) (E part env2))
         (env\<lparr>part_count := part_count env + 1\<rparr>)" for g env
    by (simp add: Let_def P_def E_def)
  show ?case
    unfolding le_comp_def
  proof
    fix env :: resolver_environment
    show "handle_pattern_elements h use_iso (element # rest) parts env = None
        \<or> handle_pattern_elements h' use_iso (element # rest) parts env =
           handle_pattern_elements h use_iso (element # rest) parts env"
    proof (cases "part_count env + 1 \<le> MAX_PARTS")
      case False
      then show ?thesis by (simp add: Let_def)
    next
      case True
      show ?thesis
      proof (cases "text_element_value element")
        case (Some v)
        from le_comp_at [OF Cons.IH [of "parts @ [v]"], of "env\<lparr>part_count := part_count env + 1\<rparr>"]
          True Some
        show ?thesis by (simp add: Let_def)
      next
        case None
        from le_comp_at [OF step, of "env\<lparr>part_count := part_count env + 1\<rparr>"]
        show ?thesis unfolding eq [OF True None] .
      qed
    qed
  qed
qed

lemma le_handle_pattern:
  assumes h: "le_handle h h'"
  shows "le_comp (handle_pattern h pattern elements) (handle_pattern h' pattern elements)"
  unfolding le_comp_def
proof
  fix env :: resolver_environment
  let ?iso = "use_isolating (env_context env) \<and> length elements > 1"
  let ?f = "\<lambda>parts env2. ret (PyStr (concat parts)) (env2\<lparr>dirty := dirty env2 - {pattern}\<rparr>)"
  have "le_comp (bind (handle_pattern_elements h ?iso elements []) ?f)
          (bind (handle_pattern_elements h' ?iso elements []) ?f)"
    by (intro le_comp_bind le_handle_pattern_elements h le_comp_refl)
  from le_comp_at [OF this, of "env\<lparr>dirty := insert pattern (dirty env)\<rparr>"]
  show "handle_pattern h pattern elements env = None
      \<or> handle_pattern h' pattern elements env = handle_pattern h pattern elements env"
    by (simp add: handle_pattern_def Let_def)
qed

lemma le_variant_list_loop:
  assumes h: "le_handle h h'"
  shows "le_comp (variant_list_loop h variants key dflt) (variant_list_loop h' variants key dflt)"
proof (induction variants arbitrary: dflt)
  case Nil
  show ?case by (simp add: le_comp_refl)
next
  case (Cons variant rest)
  have "le_comp (bind (h (variant_key variant))
          (\<lambda>compare_value env.
             if match key compare_value env then ret (Some variant, d) env
             else variant_list_loop h rest key d env))
        (bind (h' (variant_key variant))
          (\<lambda>compare_value env.
             if match key compare_value env then ret (Some variant, d) env
             else variant_list_loop h' rest key d env))" for d
  proof (rule le_comp_bind)
    show "le_comp (h (variant_key variant)) (h' (variant_key variant))"
      using h by (simp add: le_handle_def)
  next
    fix compare_value
    show "le_comp (\<lambda>env. if match key compare_value env then ret (Some variant, d) env
                         else variant_list_loop h rest key d env)
            (\<lambda>env. if match key compare_value env then ret (Some variant, d) env
                   else variant_list_loop h' rest key d env)"
      using Cons.IH [of d] by (simp add: le_comp_def)
  qed
  then show ?case by (simp add: Let_def le_comp_refl)
qed

lemma le_select_expression_loop:
  assumes h: "le_handle h h'"
  shows "le_comp (select_expression_loop h variants key dflt)
           (select_expression_loop h' variants key dflt)"
proof (induction variants arbitrary: dflt)
  case Nil
  show ?case by (simp add: le_comp_refl)
next
  case (Cons variant rest)
  have "le_comp (bind (h (variant_key variant))
          (\<lambda>compare_value env.
             if match key compare_value env then ret (Some variant, d) env
             else select_expression_loop h rest key d env))
        (bind (h' (variant_key variant))
          (\<lambda>compare_value env.
             if match key compare_value env then ret (Some variant, d) env
             else select_expression_loop h' rest key d env))" for d
  proof (rule le_comp_bind)
    show "le_comp (h (variant_key variant)) (h' (variant_key variant))"
      using h by (simp add: le_handle_def)
  next
    fix compare_value
    show "le_comp (\<lambda>env. if match key compare_value env then ret (Some variant, d) env
                         else select_expression_loop h rest key d env)
            (\<lambda>env. if match key compare_value env then ret (Some variant, d) env
                   else select_expression_loop h' rest key d env)"
      using Cons.IH [of d] by (simp add: le_comp_def)
  qed
  then show ?case by (simp add: Let_def)
qed

lemma le_select_from_variant_list:
  assumes h: "le_handle h h'"
  shows "le_comp (select_from_variant_list h variants key) (select_from_variant_list h' variants key)"
  unfolding select_from_variant_list_def
proof (rule le_comp_bind [OF le_variant_list_loop [OF h]])
  fix fd :: "variant option \<times> variant option"
  from h have hv: "h nd env = None \<or> h' nd env = h nd env" for nd env
    by (simp add: le_handle_def le_comp_def)
  show "le_comp
     (case fd of (found, dflt) \<Rightarrow> \<lambda>env.
        case found of
          Some variant \<Rightarrow> h (variant_value variant) env
        | None \<Rightarrow>
            (let env1 = (if key \<noteq> PyNone \<and> \<not> is_FluentNone key
                         then append_error (UnknownVariant key) env else env)
             in case dflt of
                  None \<Rightarrow> raise UnboundLocalError env1
                | Some variant \<Rightarrow> h (variant_value variant) env1))
     (case fd of (found, dflt) \<Rightarrow> \<lambda>env.
        case found of
          Some variant \<Rightarrow> h' (variant_value variant) env
        | None \<Rightarrow>
            (let env1 = (if key \<noteq> PyNone \<and> \<not> is_FluentNone key
                         then append_error (UnknownVariant key) env else env)
             in case dflt of
                  None \<Rightarrow> raise UnboundLocalError env1
                | Some variant \<Rightarrow> h' (variant_value variant) env1))"
    using hv by (auto simp: le_comp_def Let_def split: prod.splits option.splits)
qed

lemma le_select_from_select_expression:
  assumes h: "le_handle h h'"
  shows "le_comp (select_from_select_expression h variants key)
           (select_from_select_expression h' variants key)"
  unfolding select_from_select_expression_def
proof (rule le_comp_bind [OF le_select_expression_loop [OF h]])
  fix fd :: "variant option \<times> variant option"
  from h have hv: "le_comp (h nd) (h' nd)" for nd
    by (simp add: le_handle_def)
  show "le_comp
     (case fd of (found, dflt) \<Rightarrow>
        case (case found of None \<Rightarrow> dflt | Some variant \<Rightarrow> Some variant) of
          None \<Rightarrow> ret (FluentNone None)
        | Some variant \<Rightarrow> h (variant_value variant))
     (case fd of (found, dflt) \<Rightarrow>
        case (case found of None \<Rightarrow> dflt | Some variant \<Rightarrow> Some variant) of
          None \<Rightarrow> ret (FluentNone None)
        | Some variant \<Rightarrow> h' (variant_value variant))"
    using hv by (auto simp: le_comp_refl split: prod.splits option.splits)
qed

lemma le_handle_variant_expression:
  assumes h: "le_handle h h'"
  shows "le_comp (handle_variant_expression h ref key) (handle_variant_expression h' ref key)"
  unfolding handle_variant_expression_def
proof (rule le_comp_bind [OF le_comp_refl])
  fix message
  show "le_comp
     (case message of
        Val v \<Rightarrow> ret v
      | Node nd \<Rightarrow>
          (case node_value nd of
             None \<Rightarrow> raise AttributeError
           | Some (Some (VariantList variants)) \<Rightarrow>
               (case key of
                  Identifier variant_name \<Rightarrow>
                    select_from_variant_list h variants (PyStr variant_name)
                | _ \<Rightarrow> raise AttributeError)
           | Some _ \<Rightarrow> raise AssertionError))
     (case message of
        Val v \<Rightarrow> ret v
      | Node nd \<Rightarrow>
          (case node_value nd of
             None \<Rightarrow> raise AttributeError
           | Some (Some (VariantList variants)) \<Rightarrow>
               (case key of
                  Identifier variant_name \<Rightarrow>
                    select_from_variant_list h' variants (PyStr variant_name)
                | _ \<Rightarrow> raise AttributeError)
           | Some _ \<Rightarrow> raise AssertionError))"
    by (auto simp: le_comp_refl le_select_from_variant_list [OF h]
        split: obj.splits option.splits node.splits)
qed

lemma le_handle_positional:
  assumes h: "le_handle h h'"
  shows "le_comp (handle_positional h positional) (handle_positional h' positional)"
proof (induction positional)
  case Nil
  show ?case by (simp add: le_comp_refl)
next
  case (Cons arg rest)
  from h have "le_comp (h arg) (h' arg)" by (simp add: le_handle_def)
  then show ?case
    by (simp add: le_comp_bind le_comp_refl Cons.IH)
qed

lemma le_handle_named:
  assumes h: "le_handle h h'"
  shows "le_comp (handle_named h named kwargs) (handle_named h' named kwargs)"
proof (induction named arbitrary: kwargs)
  case Nil
  show ?case by (simp add: le_comp_refl)
next
  case (Cons kwarg rest)
  from h have "le_comp (h (snd kwarg)) (h' (snd kwarg))" by (simp add: le_handle_def)
  then show ?case
    by (simp add: le_comp_bind Cons.IH)
qed

lemma le_call_term:
  assumes h: "le_handle h h'"
  shows "le_comp (call_term h callee_ref arg_vals kwargs) (call_term h' callee_ref arg_vals kwargs)"
  unfolding call_term_def
proof (rule le_comp_bind [OF le_comp_refl])
  fix t
  have "le_comp (modified_for_term_reference (Some kwargs) (handle_obj h t))
          (modified_for_term_reference (Some kwargs) (handle_obj h' t))"
    unfolding modified_for_term_reference_def
    by (intro le_comp_modified le_handle_obj h)
  then show "le_comp
     (\<lambda>env. let env1 = (if arg_vals \<noteq> []
                  then append_error (IgnoredPositionalArguments (reference_to_id callee_ref)) env
                  else env)
        in modified_for_term_reference (Some kwargs) (handle_obj h t) env1)
     (\<lambda>env. let env1 = (if arg_vals \<noteq> []
                  then append_error (IgnoredPositionalArguments (reference_to_id callee_ref)) env
                  else env)
        in modified_for_term_reference (Some kwargs) (handle_obj h' t) env1)"
    by (simp add: le_comp_def Let_def)
qed

lemma le_handle_call_expression:
  assumes h: "le_handle h h'"
  shows "le_comp (handle_call_expression h callee positional named)
           (handle_call_expression h' callee positional named)"
  unfolding handle_call_expression_def
proof (rule le_comp_bind [OF le_handle_positional [OF h]], rule le_comp_bind [OF le_handle_named [OF h]])
  fix arg_vals kwargs
  show "le_comp
     (case callee of
        FunctionReference name \<Rightarrow> call_function name arg_vals kwargs
      | CalleeReference (MessageReference name) \<Rightarrow> call_function name arg_vals kwargs
      | CalleeReference (TermReference name) \<Rightarrow> call_term h (TermReference name) arg_vals kwargs
      | CalleeReference (AttributeExpression ref name) \<Rightarrow>
          call_term h (AttributeExpression ref name) arg_vals kwargs)
     (case callee of
        FunctionReference name \<Rightarrow> call_function name arg_vals kwargs
      | CalleeReference (MessageReference name) \<Rightarrow> call_function name arg_vals kwargs
      | CalleeReference (TermReference name) \<Rightarrow> call_term h' (TermReference name) arg_vals kwargs
      | CalleeReference (AttributeExpression ref name) \<Rightarrow>
          call_term h' (AttributeExpression ref name) arg_vals kwargs)"
    by (auto simp: le_comp_refl le_call_term [OF h] split: callee.splits reference.splits)
qed

lemma le_dispatch:
  assumes h: "le_handle h h'"
  shows "le_handle (dispatch h) (dispatch h')"
  unfolding le_handle_def
proof
  fix nd
  from h have hv: "le_comp (h x) (h' x)" for x by (simp add: le_handle_def)
  show "le_comp (dispatch h nd) (dispatch h' nd)"
  proof (cases nd)
    case (Ref ref)
    then show ?thesis
      by (cases ref)
        (simp_all add: handle_message_reference_def handle_term_reference_def
          handle_attribute_expression_def modified_for_term_reference_def
          le_comp_bind le_comp_refl le_handle_obj [OF h] le_comp_modified)
  qed (simp_all add: le_handle_opt [OF h] hv le_handle_pattern [OF h] le_comp_refl
      handle_variant_list_def le_select_from_variant_list [OF h] handle_select_expression_def
      le_comp_bind le_select_from_select_expression [OF h]
      le_handle_variant_expression [OF h] le_handle_call_expression [OF h])
qed

lemma le_handle_Suc: "le_handle (handle n) (handle (Suc n))"
proof (induction n)
  case 0
  show ?case by (simp add: le_handle_def le_comp_def)
next
  case (Suc n)
  from le_dispatch [OF Suc] show ?case by simp
qed

lemma handle_mono:
  assumes "n \<le> m" and "handle n nd env = Some r"
  shows "handle m nd env = Some r"
  using assms
proof (induction m)
  case 0
  then show ?case by simp
next
  case (Suc m)
  show ?case
  proof (cases "n = Suc m")
    case True
    with Suc.prems show ?thesis by simp
  next
    case False
    with Suc have "handle m nd env = Some r" by simp
    moreover have "le_comp (handle m nd) (handle (Suc m) nd)"
      using le_handle_Suc [of m] unfolding le_handle_def by blast
    ultimately show ?thesis
      by (rule le_compD [rotated])
  qed
qed

section \<open>Handlers return on well-formed input\<close>

lemma returnsI:
  assumes "\<And>env. budgeted ctx k env \<Longrightarrow>
             \<exists>v env'. m env = Some (Inr v, env') \<and> env_context env' = ctx
               \<and> part_count env \<le> part_count env' \<and> G v"
  shows "returns ctx k G m"
  using assms by (simp add: returns_def)

lemma returnsD:
  assumes "returns ctx k G m" and "budgeted ctx k env"
  obtains v env' where "m env = Some (Inr v, env')" and "env_context env' = ctx"
    and "part_count env \<le> part_count env'" and "G v"
  using assms unfolding returns_def by blast

lemma budgeted_later:
  "budgeted ctx k env \<Longrightarrow> env_context env' = ctx \<Longrightarrow> part_count env \<le> part_count env'
   \<Longrightarrow> budgeted ctx k env'"
  by (simp add: budgeted_def)

lemma budgeted_le: "budgeted ctx j env \<Longrightarrow> j \<le> k \<Longrightarrow> budgeted ctx k env"
  by (simp add: budgeted_def)



lemma returns_level: "returns ctx k G m \<Longrightarrow> j \<le> k \<Longrightarrow> returns ctx j G m"
  unfolding returns_def by (meson budgeted_le)





























section \<open>Resolution of well-formed messages\<close>

text \<open>
  By induction on the parts left before the ceiling: a pattern evaluates its elements with
  one part less, and with no part left it ends at its first element. Within one level,
  registry entries and variants lead to patterns, and the other expressions follow by
  induction on their structure.
\<close>

lemma returns_mono:
  assumes "returns ctx k G (handle n e)" and "n \<le> m"
  shows "returns ctx k G (handle m e)"
proof (rule returnsI)
  fix env
  assume "budgeted ctx k env"
  with assms(1) obtain v env' where 1: "handle n e env = Some (Inr v, env')"
    "env_context env' = ctx" "part_count env \<le> part_count env'" "G v"
    by (rule returnsD)
  from handle_mono [OF assms(2) 1(1)] 1
  show "\<exists>v env'. handle m e env = Some (Inr v, env') \<and> env_context env' = ctx
          \<and> part_count env \<le> part_count env' \<and> G v"
    by simp
qed

















end
